theory Spec2Isabelle
  imports Complex_Main
begin

section \<open>JavaScript values in a store\<close>

text \<open>
  The conversion pipeline of the repository works on parsed configuration documents:
  JavaScript objects and arrays that are shared by reference and mutated in place.
  They are modelled by an explicit store: a list of cells, the address of a cell
  being its index. Allocation appends a cell; a store never shrinks.

  A number is a finite value, NaN or one of the two infinities. The finite values are
  taken as rationals: every finite double is one, and the code only compares numbers
  with \<open>0\<close> and \<open>65535\<close>, which is exact.
\<close>

type_synonym addr = nat

datatype jsnum = Fin rat | NaN | PosInf | NegInf

datatype hval =
    VUndef
  | VNull
  | VBool bool
  | VNum jsnum
  | VStr string
  | VRef addr
  | VFun nat
  | VDate string

text \<open>
  \<open>VFun\<close> is a function value (identified by a number), \<open>VDate s\<close> a Date object whose
  ISO rendering (the result of its \<open>toJSON\<close>) is \<open>s\<close>. An object cell lists its own
  enumerable properties in enumeration order.
\<close>

datatype cell = CObj "(string \<times> hval) list" | CArr "hval list"

type_synonym heap = "cell list"

datatype jstype = TUndefined | TObject | TBoolean | TNumber | TString | TFunction

fun typeof :: "hval \<Rightarrow> jstype" where
  "typeof VUndef = TUndefined"
| "typeof VNull = TObject"
| "typeof (VBool b) = TBoolean"
| "typeof (VNum n) = TNumber"
| "typeof (VStr s) = TString"
| "typeof (VRef a) = TObject"
| "typeof (VFun f) = TFunction"
| "typeof (VDate s) = TObject"

fun truthy :: "hval \<Rightarrow> bool" where
  "truthy VUndef = False"
| "truthy VNull = False"
| "truthy (VBool b) = b"
| "truthy (VNum n) = (n \<noteq> Fin 0 \<and> n \<noteq> NaN)"
| "truthy (VStr s) = (s \<noteq> [])"
| "truthy (VRef a) = True"
| "truthy (VFun f) = True"
| "truthy (VDate s) = True"

text \<open>The comparisons \<open>x < 0\<close> and \<open>x > 65535\<close> on numbers; both are false on NaN.\<close>

fun num_lt_zero :: "jsnum \<Rightarrow> bool" where
  "num_lt_zero (Fin q) = (q < 0)"
| "num_lt_zero NaN = False"
| "num_lt_zero PosInf = False"
| "num_lt_zero NegInf = True"

fun num_gt_65535 :: "jsnum \<Rightarrow> bool" where
  "num_gt_65535 (Fin q) = (q > 65535)"
| "num_gt_65535 NaN = False"
| "num_gt_65535 PosInf = True"
| "num_gt_65535 NegInf = False"

text \<open>
  \<open>config[name]\<close> for one of the configuration keys: an own property of an object cell,
  \<open>undefined\<close> on an array, a Date, a primitive or a dangling address.
\<close>

fun get_prop :: "heap \<Rightarrow> hval \<Rightarrow> string \<Rightarrow> hval" where
  "get_prop h (VRef a) k =
     (if a < length h then
        (case h ! a of
           CObj fs \<Rightarrow> (case map_of fs k of None \<Rightarrow> VUndef | Some v \<Rightarrow> v)
         | CArr xs \<Rightarrow> VUndef)
      else VUndef)"
| "get_prop h v k = VUndef"

fun isArray :: "heap \<Rightarrow> hval \<Rightarrow> bool" where
  "isArray h (VRef a) =
     (if a < length h then (case h ! a of CArr xs \<Rightarrow> True | CObj fs \<Rightarrow> False) else False)"
| "isArray h v = False"

section \<open>Errors\<close>

text \<open>
  Every failure of the code is a plain \<open>Error\<close> told apart by its message. The fixed
  messages of the code are constructors; \<open>Foreign s\<close> is a message \<open>s\<close> produced by the
  JavaScript engine or by the routine.
\<close>

datatype field = Rules | Proxies | ProxyGroups | Port | SocksPort | MixedPort | Mode

fun field_name :: "field \<Rightarrow> string" where
  "field_name Rules = ''rules''"
| "field_name Proxies = ''proxies''"
| "field_name ProxyGroups = ''proxy-groups''"
| "field_name Port = ''port''"
| "field_name SocksPort = ''socks-port''"
| "field_name MixedPort = ''mixed-port''"
| "field_name Mode = ''mode''"

datatype err_text =
    ConfigMustBeObject
  | MissingMainDecl
  | MainNotFunction
  | ScriptTimedOut
  | MustReturnObject
  | MustBeArray field
  | InvalidPort field
  | InvalidMode
  | Foreign string

section \<open>validateConfig\<close>

definition check_array_field :: "heap \<Rightarrow> hval \<Rightarrow> field \<Rightarrow> err_text option" where
  "check_array_field h config f =
     (let v = get_prop h config (field_name f)
      in if truthy v \<and> \<not> isArray h v then Some (MustBeArray f) else None)"

fun bad_port :: "hval \<Rightarrow> bool" where
  "bad_port VUndef = False"
| "bad_port (VNum n) = (num_lt_zero n \<or> num_gt_65535 n)"
| "bad_port v = True"

fun check_port_fields :: "heap \<Rightarrow> hval \<Rightarrow> field list \<Rightarrow> err_text option" where
  "check_port_fields h config [] = None"
| "check_port_fields h config (f # fs) =
     (if bad_port (get_prop h config (field_name f)) then Some (InvalidPort f)
      else check_port_fields h config fs)"

definition portFields :: "field list" where
  "portFields = [Port, SocksPort, MixedPort]"

definition mode_values :: "hval list" where
  "mode_values = [VStr ''rule'', VStr ''global'', VStr ''direct'']"

definition check_mode :: "heap \<Rightarrow> hval \<Rightarrow> err_text option" where
  "check_mode h config =
     (let v = get_prop h config ''mode''
      in if truthy v \<and> v \<notin> set mode_values then Some InvalidMode else None)"

text \<open>
  The checks of a result run in the order of the source; the first one that fails
  throws, so the later ones are not reached.
\<close>

fun first_error :: "err_text option list \<Rightarrow> err_text option" where
  "first_error [] = None"
| "first_error (None # cs) = first_error cs"
| "first_error (Some e # cs) = Some e"

text \<open>\<open>validateConfig(config, isResult)\<close>: \<open>None\<close> when it returns, the error thrown otherwise.\<close>

definition validateConfig :: "heap \<Rightarrow> hval \<Rightarrow> bool \<Rightarrow> err_text option" where
  "validateConfig h config isResult =
     (if \<not> truthy config \<or> typeof config \<noteq> TObject then Some ConfigMustBeObject
      else if isResult then
        first_error
          [check_array_field h config Rules,
           check_array_field h config Proxies,
           check_array_field h config ProxyGroups,
           check_port_fields h config portFields,
           check_mode h config]
      else None)"

text \<open>A check of the validation as a pair: whether it is violated, and the error it throws then.\<close>

fun violation :: "bool \<times> err_text \<Rightarrow> err_text option" where
  "violation (c, e) = (if c then Some e else None)"

section \<open>Errors thrown, and functions held by a manifest\<close>

text \<open>
  What a \<open>throw\<close> delivers to a \<open>catch\<close> block: an \<open>Error\<close> object with a message,
  which may be an instance of \<open>SyntaxError\<close>, or a value that is not an error object and
  has no \<open>message\<close>.
\<close>

datatype thrown = JsError bool err_text | NonError

text \<open>
  A function value is opaque. \<open>JSON.stringify\<close> calls one: the \<open>toJSON\<close> member of an
  object it is about to serialize, with the object as \<open>this\<close> and the key under which
  the object was found as argument (\<open>Index i\<close> stands for the string of the index \<open>i\<close>).
  What such a call does is a parameter: it returns a value, or throws, or never
  returns, and it may leave the store changed. The depth to which calls can nest
  before the engine throws its RangeError is a parameter too.
\<close>

datatype prop_key = Name string | Index nat

datatype call_outcome = Returned hval heap | Threw thrown heap | NeverReturns

record host =
  call_toJSON :: "nat \<Rightarrow> heap \<Rightarrow> hval \<Rightarrow> prop_key \<Rightarrow> call_outcome"
  stack_limit :: nat

section \<open>The deep copy: JSON.parse(JSON.stringify(config))\<close>

text \<open>
  The text produced by \<open>JSON.stringify\<close> and read back by \<open>JSON.parse\<close> is represented by
  the JSON value it denotes.
\<close>

datatype json =
    JNull
  | JBool bool
  | JNum rat
  | JStr string
  | JArr "json list"
  | JObj "(string \<times> json) list"

datatype 'a ser_outcome = SerDone 'a heap | SerThrew thrown heap | SerNever

definition circular_message :: string where
  "circular_message = ''Converting circular structure to JSON''"

definition stack_message :: string where
  "stack_message = ''Maximum call stack size exceeded''"

definition not_json_message :: string where
  "not_json_message = ''undefined is not valid JSON''"

text \<open>The cell at an address; an address beyond the store reads as an object without properties.\<close>

definition cell_at :: "heap \<Rightarrow> addr \<Rightarrow> cell" where
  "cell_at h a = (if a < length h then h ! a else CObj [])"

definition get_element :: "heap \<Rightarrow> addr \<Rightarrow> nat \<Rightarrow> hval" where
  "get_element h a i =
     (case cell_at h a of CArr xs \<Rightarrow> (if i < length xs then xs ! i else VUndef) | CObj fs \<Rightarrow> VUndef)"

text \<open>The function that is the \<open>toJSON\<close> member of a value, if the value has one.\<close>

definition toJSON_method :: "heap \<Rightarrow> hval \<Rightarrow> nat option" where
  "toJSON_method h v = (case get_prop h v ''toJSON'' of VFun f \<Rightarrow> Some f | _ \<Rightarrow> None)"

text \<open>
  The first step of the serialization of a property: a Date gives its ISO string
  (the \<open>toJSON\<close> of every Date), an object with a \<open>toJSON\<close> member that is a function
  gives what the call of that member returns, any other value is taken as it is.
\<close>

definition to_json_step :: "host \<Rightarrow> heap \<Rightarrow> prop_key \<Rightarrow> hval \<Rightarrow> call_outcome" where
  "to_json_step hst h key v =
     (case v of
        VDate s \<Rightarrow> Returned (VStr s) h
      | _ \<Rightarrow> (case toJSON_method h v of
                None \<Rightarrow> Returned v h
              | Some f \<Rightarrow> call_toJSON hst f h v key))"

fun ser_num :: "jsnum \<Rightarrow> json" where
  "ser_num (Fin q) = JNum q"
| "ser_num n = JNull"

fun arr_element :: "json option \<Rightarrow> json" where
  "arr_element None = JNull"
| "arr_element (Some j) = j"

fun add_member :: "string \<Rightarrow> json option \<Rightarrow> (string \<times> json) list \<Rightarrow> (string \<times> json) list" where
  "add_member k None ms = ms"
| "add_member k (Some j) ms = (k, j) # ms"

text \<open>
  \<open>ser_value hst n st v h\<close> serializes the value \<open>v\<close>, after its \<open>toJSON\<close> step, in the
  store \<open>h\<close>; \<open>n\<close> is the depth still available and \<open>st\<close> holds the addresses of the
  objects being serialized around \<open>v\<close>: meeting one of them again is the TypeError for a
  circular structure. The result \<open>None\<close> is \<open>undefined\<close>. A Date that has already gone
  through the \<open>toJSON\<close> step is an object without enumerable properties. The keys of an
  object and the length of an array are taken when the object is entered; the value
  of each member is read when its turn comes, in the store as the calls made so far
  have left it. A member that serializes to \<open>undefined\<close> is left out of an object and
  is \<open>null\<close> in an array.
\<close>

function ser_value :: "host \<Rightarrow> nat \<Rightarrow> addr list \<Rightarrow> hval \<Rightarrow> heap \<Rightarrow> json option ser_outcome"
  and ser_members ::
    "host \<Rightarrow> nat \<Rightarrow> addr list \<Rightarrow> addr \<Rightarrow> string list \<Rightarrow> heap \<Rightarrow> (string \<times> json) list ser_outcome"
  and ser_elements ::
    "host \<Rightarrow> nat \<Rightarrow> addr list \<Rightarrow> addr \<Rightarrow> nat list \<Rightarrow> heap \<Rightarrow> json list ser_outcome" where
  "ser_value hst n st VUndef h = SerDone None h"
| "ser_value hst n st VNull h = SerDone (Some JNull) h"
| "ser_value hst n st (VBool b) h = SerDone (Some (JBool b)) h"
| "ser_value hst n st (VNum x) h = SerDone (Some (ser_num x)) h"
| "ser_value hst n st (VStr s) h = SerDone (Some (JStr s)) h"
| "ser_value hst n st (VFun f) h = SerDone None h"
| "ser_value hst n st (VDate s) h = SerDone (Some (JObj [])) h"
| "ser_value hst 0 st (VRef a) h =
     (if a \<in> set st then SerThrew (JsError False (Foreign circular_message)) h
      else SerThrew (JsError False (Foreign stack_message)) h)"
| "ser_value hst (Suc m) st (VRef a) h =
     (if a \<in> set st then SerThrew (JsError False (Foreign circular_message)) h
      else (case cell_at h a of
              CObj fs \<Rightarrow>
                (case ser_members hst m (a # st) a (map fst fs) h of
                   SerDone ms h' \<Rightarrow> SerDone (Some (JObj ms)) h'
                 | SerThrew t h' \<Rightarrow> SerThrew t h'
                 | SerNever \<Rightarrow> SerNever)
            | CArr xs \<Rightarrow>
                (case ser_elements hst m (a # st) a [0..<length xs] h of
                   SerDone js h' \<Rightarrow> SerDone (Some (JArr js)) h'
                 | SerThrew t h' \<Rightarrow> SerThrew t h'
                 | SerNever \<Rightarrow> SerNever)))"
| "ser_members hst m st a [] h = SerDone [] h"
| "ser_members hst m st a (k # ks) h =
     (case to_json_step hst h (Name k) (get_prop h (VRef a) k) of
        NeverReturns \<Rightarrow> SerNever
      | Threw t h' \<Rightarrow> SerThrew t h'
      | Returned v h' \<Rightarrow>
          (case ser_value hst m st v h' of
             SerNever \<Rightarrow> SerNever
           | SerThrew t h1 \<Rightarrow> SerThrew t h1
           | SerDone j h1 \<Rightarrow>
               (case ser_members hst m st a ks h1 of
                  SerNever \<Rightarrow> SerNever
                | SerThrew t h2 \<Rightarrow> SerThrew t h2
                | SerDone ms h2 \<Rightarrow> SerDone (add_member k j ms) h2)))"
| "ser_elements hst m st a [] h = SerDone [] h"
| "ser_elements hst m st a (i # is) h =
     (case to_json_step hst h (Index i) (get_element h a i) of
        NeverReturns \<Rightarrow> SerNever
      | Threw t h' \<Rightarrow> SerThrew t h'
      | Returned v h' \<Rightarrow>
          (case ser_value hst m st v h' of
             SerNever \<Rightarrow> SerNever
           | SerThrew t h1 \<Rightarrow> SerThrew t h1
           | SerDone j h1 \<Rightarrow>
               (case ser_elements hst m st a is h1 of
                  SerNever \<Rightarrow> SerNever
                | SerThrew t h2 \<Rightarrow> SerThrew t h2
                | SerDone js h2 \<Rightarrow> SerDone (arr_element j # js) h2)))"
  by pat_completeness auto

termination
  by (relation "inv_image (less_than <*lex*> less_than)
    (\<lambda>x. case x of
       Inl (hst, n, st, v, h) \<Rightarrow> (n, 0)
     | Inr (Inl (hst, n, st, a, ks, h)) \<Rightarrow> (n, Suc (length ks))
     | Inr (Inr (hst, n, st, a, es, h)) \<Rightarrow> (n, Suc (length es)))")
    auto

text \<open>\<open>JSON.stringify(v)\<close>: the property of the empty name of a wrapper around \<open>v\<close>.\<close>

definition ser_property :: "host \<Rightarrow> nat \<Rightarrow> addr list \<Rightarrow> prop_key \<Rightarrow> hval \<Rightarrow> heap \<Rightarrow> json option ser_outcome" where
  "ser_property hst n st key v h =
     (case to_json_step hst h key v of
        NeverReturns \<Rightarrow> SerNever
      | Threw t h' \<Rightarrow> SerThrew t h'
      | Returned v' h' \<Rightarrow> ser_value hst n st v' h')"

definition stringify :: "host \<Rightarrow> hval \<Rightarrow> heap \<Rightarrow> json option ser_outcome" where
  "stringify hst v h = ser_property hst (stack_limit hst) [] (Name []) v h"

text \<open>
  \<open>JSON.parse\<close> allocates a fresh cell for every object and array of the value it reads.
\<close>

fun build :: "json \<Rightarrow> heap \<Rightarrow> hval \<times> heap"
  and build_list :: "json list \<Rightarrow> heap \<Rightarrow> hval list \<times> heap"
  and build_members :: "(string \<times> json) list \<Rightarrow> heap \<Rightarrow> (string \<times> hval) list \<times> heap" where
  "build JNull h = (VNull, h)"
| "build (JBool b) h = (VBool b, h)"
| "build (JNum q) h = (VNum (Fin q), h)"
| "build (JStr s) h = (VStr s, h)"
| "build (JArr js) h =
     (case build_list js h of (vs, h') \<Rightarrow> (VRef (length h'), h' @ [CArr vs]))"
| "build (JObj ms) h =
     (case build_members ms h of (fs, h') \<Rightarrow> (VRef (length h'), h' @ [CObj fs]))"
| "build_list [] h = ([], h)"
| "build_list (j # js) h =
     (case build j h of (v, h1) \<Rightarrow>
        (case build_list js h1 of (vs, h2) \<Rightarrow> (v # vs, h2)))"
| "build_members [] h = ([], h)"
| "build_members ((k, j) # ms) h =
     (case build j h of (v, h1) \<Rightarrow>
        (case build_members ms h1 of (fs, h2) \<Rightarrow> ((k, v) # fs, h2)))"

text \<open>
  The deep copy of \<open>executeScript\<close>. A value that serializes to \<open>undefined\<close> makes
  \<open>JSON.stringify\<close> return \<open>undefined\<close>, which \<open>JSON.parse\<close> rejects with a SyntaxError.
  \<open>None\<close> is a copy that never returns.
\<close>

definition deep_copy :: "host \<Rightarrow> heap \<Rightarrow> hval \<Rightarrow> ((thrown + hval) \<times> heap) option" where
  "deep_copy hst h config =
     (case stringify hst config h of
        SerNever \<Rightarrow> None
      | SerThrew t h' \<Rightarrow> Some (Inl t, h')
      | SerDone None h' \<Rightarrow> Some (Inl (JsError True (Foreign not_json_message)), h')
      | SerDone (Some j) h' \<Rightarrow> (case build j h' of (v, h1) \<Rightarrow> Some (Inr v, h1)))"

section \<open>executeScript\<close>

text \<open>
  The virtual console of \<open>executeScript\<close> records what the routine prints and passes
  it on to the real console; the value returned and the error thrown do not depend
  on it, and it is left out.
\<close>

text \<open>
  The routine source is free-form JavaScript, so the engine that compiles and runs it
  is a parameter. \<open>compile eng src\<close> is the message of the SyntaxError of
  \<open>new Function\<close>, if any. \<open>run eng src h config profileName\<close> is what evaluating the
  routine source and then calling \<open>main(config, profileName)\<close> does in the store \<open>h\<close>:
  it throws, or it leaves \<open>main\<close> not bound to a function, or \<open>main\<close> returns a value
  after some milliseconds measured from the start of the wrapper, or it never returns.
\<close>

datatype run_outcome =
    ScriptThrows thrown heap
  | MainUndefined heap
  | MainReturns hval int heap
  | Diverges

record engine =
  compile :: "string \<Rightarrow> string option"
  run :: "string \<Rightarrow> heap \<Rightarrow> hval \<Rightarrow> string \<Rightarrow> run_outcome"

fun starts_with :: "string \<Rightarrow> string \<Rightarrow> bool" where
  "starts_with s [] = True"
| "starts_with [] (c # cs) = False"
| "starts_with (d # ds) (c # cs) = (d = c \<and> starts_with ds cs)"

fun includes_str :: "string \<Rightarrow> string \<Rightarrow> bool" where
  "includes_str [] needle = (needle = [])"
| "includes_str (c # cs) needle = (starts_with (c # cs) needle \<or> includes_str cs needle)"

text \<open>
  The fixed messages of the code are Chinese text around a field name, \<open>main\<close> or
  \<open>0-65535\<close>: none of them contains \<open>is not defined\<close> or \<open>is not a function\<close>.
\<close>

fun message_includes :: "err_text \<Rightarrow> string \<Rightarrow> bool" where
  "message_includes (Foreign s) needle = includes_str s needle"
| "message_includes e needle = False"

datatype failure_kind = PlainFailure | SyntaxFailure | UndefinedReference | NotCallable

text \<open>
  The errors \<open>executeScript\<close> throws: the one of the input validation, which runs
  outside the \<open>try\<close> block; the rewrapped one of the \<open>catch\<close> block, with the
  friendlier prefix chosen from the message; and the TypeError of the \<open>catch\<close> block
  itself when what was thrown has no message.
\<close>

datatype exec_error =
    InputInvalid err_text
  | ScriptFailed failure_kind err_text
  | HandlerTypeError

fun rethrow :: "thrown \<Rightarrow> exec_error" where
  "rethrow NonError = HandlerTypeError"
| "rethrow (JsError is_syntax m) =
     ScriptFailed
       (if is_syntax then SyntaxFailure
        else if message_includes m ''is not defined'' then UndefinedReference
        else if message_includes m ''is not a function'' then NotCallable
        else PlainFailure) m"

definition timeoutMs :: int where
  "timeoutMs = 10000"

text \<open>
  The timer set with \<open>setTimeout\<close> is cleared before \<open>executeScript\<close> gives control back
  to the event loop, and the wrapper runs synchronously: its callback never runs, and
  the flag it would set is still false when it is read.
\<close>

definition hasTimedOut :: bool where
  "hasTimedOut = False"

text \<open>\<open>checkTimeout()\<close> after \<open>main\<close> has returned, \<open>elapsed\<close> milliseconds after the start.\<close>

definition checkTimeout :: "int \<Rightarrow> thrown option" where
  "checkTimeout elapsed =
     (if elapsed > timeoutMs - 1000 then Some (JsError False ScriptTimedOut) else None)"

text \<open>The part of the \<open>try\<close> block after the wrapper has returned \<open>result\<close>.\<close>

definition check_result :: "heap \<Rightarrow> hval \<Rightarrow> thrown + hval" where
  "check_result h result =
     (if hasTimedOut then Inl (JsError False ScriptTimedOut)
      else if \<not> truthy result \<or> typeof result \<noteq> TObject
        then Inl (JsError False MustReturnObject)
      else (case validateConfig h result True of
              Some e \<Rightarrow> Inl (JsError False e)
            | None \<Rightarrow> Inr result))"

text \<open>What the wrapper and the rest of the \<open>try\<close> block make of a run: \<open>None\<close> is a call that never returns.\<close>

definition finish :: "run_outcome \<Rightarrow> ((thrown + hval) \<times> heap) option" where
  "finish outcome =
     (case outcome of
        Diverges \<Rightarrow> None
      | ScriptThrows t h' \<Rightarrow> Some (Inl t, h')
      | MainUndefined h' \<Rightarrow> Some (Inl (JsError False MainNotFunction), h')
      | MainReturns result elapsed h' \<Rightarrow>
          (case checkTimeout elapsed of
             Some t \<Rightarrow> Some (Inl t, h')
           | None \<Rightarrow> Some (check_result h' result, h')))"

text \<open>Compiling the wrapper and calling it on the copy.\<close>

definition invoke :: "engine \<Rightarrow> heap \<Rightarrow> hval \<Rightarrow> string \<Rightarrow> string \<Rightarrow> ((thrown + hval) \<times> heap) option" where
  "invoke eng h configCopy script profileName =
     (case compile eng script of
        Some m \<Rightarrow> Some (Inl (JsError True (Foreign m)), h)
      | None \<Rightarrow> finish (run eng script h configCopy profileName))"

text \<open>The \<open>try\<close> block, without its \<open>catch\<close>.\<close>

definition try_block ::
  "host \<Rightarrow> engine \<Rightarrow> heap \<Rightarrow> hval \<Rightarrow> string \<Rightarrow> string \<Rightarrow> ((thrown + hval) \<times> heap) option" where
  "try_block hst eng h config script profileName =
     (case deep_copy hst h config of
        None \<Rightarrow> None
      | Some (Inl t, h1) \<Rightarrow> Some (Inl t, h1)
      | Some (Inr configCopy, h1) \<Rightarrow>
          if \<not> includes_str script ''function main''
          then Some (Inl (JsError False MissingMainDecl), h1)
          else invoke eng h1 configCopy script profileName)"

text \<open>
  \<open>executeScript(config, script, profileName)\<close> in the store \<open>h\<close>: \<open>None\<close> when the call
  never returns, else the value returned or the error thrown, with the store the
  call leaves behind.
\<close>

definition executeScript ::
  "host \<Rightarrow> engine \<Rightarrow> heap \<Rightarrow> hval \<Rightarrow> string \<Rightarrow> string \<Rightarrow> ((exec_error + hval) \<times> heap) option" where
  "executeScript hst eng h config script profileName =
     (case validateConfig h config False of
        Some e \<Rightarrow> Some (Inl (InputInvalid e), h)
      | None \<Rightarrow>
          (case try_block hst eng h config script profileName of
             None \<Rightarrow> None
           | Some (Inl t, h') \<Rightarrow> Some (Inl (rethrow t), h')
           | Some (Inr result, h') \<Rightarrow> Some (Inr result, h')))"

section \<open>Some hosts and routines\<close>

text \<open>
  Hosts for concrete runs, all with room for 64 nested calls. In \<open>plain_host\<close> every
  \<open>toJSON\<close> returns \<open>undefined\<close>. In \<open>rewriting_host\<close> every \<open>toJSON\<close> sets, in place, the
  properties of its object to \<open>mode: global\<close> and itself, and returns the object. In
  \<open>replacing_host\<close> every \<open>toJSON\<close> returns a new object \<open>{gone: 1}\<close>.
\<close>

definition plain_host :: host where
  "plain_host = \<lparr>call_toJSON = (\<lambda>f h v key. Returned VUndef h), stack_limit = 64\<rparr>"

definition rewriting_host :: host where
  "rewriting_host =
     \<lparr>call_toJSON = (\<lambda>f h v key.
         case v of
           VRef a \<Rightarrow> Returned v (h[a := CObj [(''mode'', VStr ''global''), (''toJSON'', VFun f)]])
         | _ \<Rightarrow> Returned v h),
      stack_limit = 64\<rparr>"

definition replacing_host :: host where
  "replacing_host =
     \<lparr>call_toJSON = (\<lambda>f h v key. Returned (VRef (length h)) (h @ [CObj [(''gone'', VNum (Fin 1))]])),
      stack_limit = 64\<rparr>"

text \<open>
  Engines for concrete runs. \<open>echo_engine t\<close> runs a routine whose \<open>main\<close> returns the
  object it is given after \<open>t\<close> milliseconds; \<open>constant_engine v t\<close> one whose \<open>main\<close>
  returns the primitive \<open>v\<close>; \<open>array_engine\<close> one whose \<open>main\<close> returns a new empty
  array; \<open>overwrite_engine\<close> one whose \<open>main\<close> replaces, in place, the properties of
  the object it is given by \<open>port: 1\<close> and returns that object. None of them fails to
  compile. \<open>failing_engine m\<close> finds in every source a syntax error with the message
  \<open>m\<close>. \<open>js_engine\<close> does with three sources what JavaScript does with them:
  \<open>const main = (config) => config;\<close> binds \<open>main\<close> to a function that returns its
  argument, while \<open>// function main\<close>, a comment, and \<open>function mainframe() {}\<close> leave
  \<open>main\<close> unbound.
\<close>

definition echo_engine :: "int \<Rightarrow> engine" where
  "echo_engine t = \<lparr>compile = (\<lambda>src. None), run = (\<lambda>src h config name. MainReturns config t h)\<rparr>"

definition constant_engine :: "hval \<Rightarrow> int \<Rightarrow> engine" where
  "constant_engine v t = \<lparr>compile = (\<lambda>src. None), run = (\<lambda>src h config name. MainReturns v t h)\<rparr>"

definition array_engine :: engine where
  "array_engine =
     \<lparr>compile = (\<lambda>src. None),
      run = (\<lambda>src h config name. MainReturns (VRef (length h)) 0 (h @ [CArr []]))\<rparr>"

definition overwrite_engine :: engine where
  "overwrite_engine =
     \<lparr>compile = (\<lambda>src. None),
      run = (\<lambda>src h config name.
               case config of
                 VRef a \<Rightarrow> MainReturns config 0 (h[a := CObj [(''port'', VNum (Fin 1))]])
               | _ \<Rightarrow> MainReturns config 0 h)\<rparr>"

definition failing_engine :: "string \<Rightarrow> engine" where
  "failing_engine m = \<lparr>compile = (\<lambda>src. Some m), run = (\<lambda>src h config name. Diverges)\<rparr>"

definition js_engine :: engine where
  "js_engine =
     \<lparr>compile = (\<lambda>src. None),
      run = (\<lambda>src h config name.
               if src = ''// function main'' \<or> src = ''function mainframe() {}''
               then MainUndefined h
               else MainReturns config 0 h)\<rparr>"

section \<open>Reachability, confinement and content\<close>

fun cell_values :: "cell \<Rightarrow> hval list" where
  "cell_values (CObj fs) = map snd fs"
| "cell_values (CArr xs) = xs"

text \<open>\<open>reachable h v a\<close>: the cell at \<open>a\<close> can be reached from the value \<open>v\<close> in the store \<open>h\<close>.\<close>

inductive reachable :: "heap \<Rightarrow> hval \<Rightarrow> addr \<Rightarrow> bool" for h :: heap where
  reach_root: "a < length h \<Longrightarrow> reachable h (VRef a) a"
| reach_step: "reachable h v a \<Longrightarrow> VRef b \<in> set (cell_values (h ! a)) \<Longrightarrow> b < length h
     \<Longrightarrow> reachable h v b"

fun final_heap :: "run_outcome \<Rightarrow> heap option" where
  "final_heap (ScriptThrows t h) = Some h"
| "final_heap (MainUndefined h) = Some h"
| "final_heap (MainReturns v elapsed h) = Some h"
| "final_heap Diverges = None"

text \<open>
  A routine is handed one object. An engine is confined when a run changes, among the
  cells that exist when it starts, only those reachable from that object: a routine
  has no other way to a cell of its caller.
\<close>

definition confined :: "engine \<Rightarrow> bool" where
  "confined eng =
     (\<forall>src h v name h'. final_heap (run eng src h v name) = Some h' \<longrightarrow>
        length h \<le> length h' \<and> (\<forall>a < length h. \<not> reachable h v a \<longrightarrow> h' ! a = h ! a))"

text \<open>
  A host writes nothing when the \<open>toJSON\<close> methods it runs leave every cell as it is;
  they may allocate new ones.
\<close>

fun call_heap :: "call_outcome \<Rightarrow> heap option" where
  "call_heap (Returned v h) = Some h"
| "call_heap (Threw t h) = Some h"
| "call_heap NeverReturns = None"

definition writes_nothing :: "host \<Rightarrow> bool" where
  "writes_nothing hst =
     (\<forall>f h v key h'. call_heap (call_toJSON hst f h v key) = Some h' \<longrightarrow> (\<exists>ext. h' = h @ ext))"

fun ser_heap :: "'a ser_outcome \<Rightarrow> heap option" where
  "ser_heap (SerDone x h) = Some h"
| "ser_heap (SerThrew t h) = Some h"
| "ser_heap SerNever = None"

text \<open>
  \<open>region_closed n h\<close>: the cells of \<open>h\<close> from address \<open>n\<close> on refer only to cells from \<open>n\<close> on.
\<close>

definition region_closed :: "nat \<Rightarrow> heap \<Rightarrow> bool" where
  "region_closed n h =
     (\<forall>a. n \<le> a \<and> a < length h \<longrightarrow>
        (\<forall>b. VRef b \<in> set (cell_values (h ! a)) \<longrightarrow> n \<le> b \<and> b < length h))"

text \<open>
  \<open>represents h v j\<close>: in the store \<open>h\<close> the value \<open>v\<close> has exactly the content \<open>j\<close>:
  the same primitives, arrays with the same elements in the same order, objects with
  the same keys in the same order, and nothing else.
\<close>

fun represents :: "heap \<Rightarrow> hval \<Rightarrow> json \<Rightarrow> bool"
  and represents_list :: "heap \<Rightarrow> hval list \<Rightarrow> json list \<Rightarrow> bool"
  and represents_members :: "heap \<Rightarrow> (string \<times> hval) list \<Rightarrow> (string \<times> json) list \<Rightarrow> bool" where
  "represents h v JNull = (v = VNull)"
| "represents h v (JBool b) = (v = VBool b)"
| "represents h v (JNum q) = (v = VNum (Fin q))"
| "represents h v (JStr s) = (v = VStr s)"
| "represents h v (JArr js) =
     (case v of
        VRef a \<Rightarrow> a < length h \<and> (case h ! a of CArr xs \<Rightarrow> represents_list h xs js | CObj fs \<Rightarrow> False)
      | _ \<Rightarrow> False)"
| "represents h v (JObj ms) =
     (case v of
        VRef a \<Rightarrow> a < length h \<and> (case h ! a of CObj fs \<Rightarrow> represents_members h fs ms | CArr xs \<Rightarrow> False)
      | _ \<Rightarrow> False)"
| "represents_list h vs [] = (vs = [])"
| "represents_list h vs (j # js) =
     (case vs of [] \<Rightarrow> False | v # vs' \<Rightarrow> represents h v j \<and> represents_list h vs' js)"
| "represents_members h fs [] = (fs = [])"
| "represents_members h fs ((k, j) # ms) =
     (case fs of [] \<Rightarrow> False | (k', v) # fs' \<Rightarrow> k' = k \<and> represents h v j \<and> represents_members h fs' ms)"

text \<open>
  The depth of nesting of a JSON value, and the property that no object in it has
  the same key twice, as no JavaScript object has.
\<close>

fun nesting :: "json \<Rightarrow> nat"
  and nesting_list :: "json list \<Rightarrow> nat"
  and nesting_members :: "(string \<times> json) list \<Rightarrow> nat" where
  "nesting JNull = 0"
| "nesting (JBool b) = 0"
| "nesting (JNum q) = 0"
| "nesting (JStr s) = 0"
| "nesting (JArr js) = Suc (nesting_list js)"
| "nesting (JObj ms) = Suc (nesting_members ms)"
| "nesting_list [] = 0"
| "nesting_list (j # js) = max (nesting j) (nesting_list js)"
| "nesting_members [] = 0"
| "nesting_members ((k, j) # ms) = max (nesting j) (nesting_members ms)"

fun unique_keys :: "json \<Rightarrow> bool"
  and unique_keys_list :: "json list \<Rightarrow> bool"
  and unique_keys_members :: "(string \<times> json) list \<Rightarrow> bool" where
  "unique_keys JNull = True"
| "unique_keys (JBool b) = True"
| "unique_keys (JNum q) = True"
| "unique_keys (JStr s) = True"
| "unique_keys (JArr js) = unique_keys_list js"
| "unique_keys (JObj ms) = (distinct (map fst ms) \<and> unique_keys_members ms)"
| "unique_keys_list [] = True"
| "unique_keys_list (j # js) = (unique_keys j \<and> unique_keys_list js)"
| "unique_keys_members [] = True"
| "unique_keys_members ((k, j) # ms) = (unique_keys j \<and> unique_keys_members ms)"

text \<open>
  What \<open>JSON.stringify\<close> writes for a member that is not an object or an array, when it
  writes anything: a Date gives its string, a number that is not finite gives \<open>null\<close>,
  \<open>undefined\<close> and a function give nothing.
\<close>

fun primitive_json :: "hval \<Rightarrow> json option" where
  "primitive_json VUndef = None"
| "primitive_json VNull = Some JNull"
| "primitive_json (VBool b) = Some (JBool b)"
| "primitive_json (VNum x) = Some (ser_num x)"
| "primitive_json (VStr s) = Some (JStr s)"
| "primitive_json (VRef a) = None"
| "primitive_json (VFun f) = None"
| "primitive_json (VDate s) = Some (JStr s)"

section \<open>The wording of the specification\<close>

text \<open>
  Stated from the specification, to be compared with the code: a non-null structured
  mapping, a key that is present, an integer in \<open>[0, 65535]\<close>, and strict validation
  as the specification words it.
\<close>

fun is_mapping :: "heap \<Rightarrow> hval \<Rightarrow> bool" where
  "is_mapping h (VRef a) =
     (if a < length h then (case h ! a of CObj fs \<Rightarrow> True | CArr xs \<Rightarrow> False) else False)"
| "is_mapping h v = False"

fun has_key :: "heap \<Rightarrow> hval \<Rightarrow> string \<Rightarrow> bool" where
  "has_key h (VRef a) k =
     (if a < length h then (case h ! a of CObj fs \<Rightarrow> map_of fs k \<noteq> None | CArr xs \<Rightarrow> False)
      else False)"
| "has_key h v k = False"

fun port_integer :: "hval \<Rightarrow> bool" where
  "port_integer (VNum (Fin q)) = (q = of_int \<lfloor>q\<rfloor> \<and> 0 \<le> q \<and> q \<le> 65535)"
| "port_integer v = False"

definition spec_validateStrict :: "heap \<Rightarrow> hval \<Rightarrow> bool" where
  "spec_validateStrict h config =
     (is_mapping h config
      \<and> (\<forall>f \<in> set [Rules, Proxies, ProxyGroups].
            has_key h config (field_name f) \<longrightarrow> isArray h (get_prop h config (field_name f)))
      \<and> (\<forall>f \<in> set [Port, SocksPort, MixedPort].
            has_key h config (field_name f) \<longrightarrow> port_integer (get_prop h config (field_name f)))
      \<and> (has_key h config (field_name Mode) \<longrightarrow>
            get_prop h config (field_name Mode) \<in> set mode_values))"

section \<open>The batch runner\<close>

text \<open>
  The files are a map from paths to contents. The libraries the batch runner calls
  (\<open>glob\<close>, \<open>js-yaml\<close>, \<open>path\<close>, the creation of the output directory) are parameters;
  a library call that throws returns the message on the left. Writing a file may
  throw: \<open>write_error env p\<close> is the message when writing to the path \<open>p\<close> does, and a
  write that throws leaves the files as they are. The function that executes the
  routine is an option of the caller; it may not return (\<open>None\<close>).
\<close>

type_synonym files = "string \<rightharpoonup> string"

record 'c batch_env =
  glob_sync :: "string \<Rightarrow> string + string list"
  yaml_load :: "string \<Rightarrow> string + 'c"
  yaml_dump :: "'c \<Rightarrow> string + string"
  path_basename :: "string \<Rightarrow> string"
  path_stem :: "string \<Rightarrow> string"
  path_join :: "string \<Rightarrow> string \<Rightarrow> string"
  ensure_dir :: "string \<Rightarrow> string option"
  write_error :: "string \<Rightarrow> string option"

record 'c options =
  inputPattern :: string
  scriptPath :: string
  outputDir :: "string option"
  overwrite :: bool
  executeScript_option :: "'c \<Rightarrow> string \<Rightarrow> string \<Rightarrow> (string + 'c) option"
  concurrency :: nat

text \<open>
  The messages of the batch runner: the message of a library or of the routine
  executor as it is, or wrapped by one of the prefixes of the code.
\<close>

datatype message =
    Plain string
  | ReadOrParseFailed string
  | WriteFailed string
  | CannotReadScript string string
  | InvalidPattern string string
  | CannotCreateDir string string

record result =
  input :: "string option"
  outputPath :: "string option"
  error :: "message option"
  success :: bool

definition succeeded :: "string \<Rightarrow> string \<Rightarrow> result" where
  "succeeded file path =
     \<lparr>input = Some file, outputPath = Some path, error = None, success = True\<rparr>"

definition failed :: "string \<Rightarrow> message \<Rightarrow> result" where
  "failed file m = \<lparr>input = Some file, outputPath = None, error = Some m, success = False\<rparr>"

definition fatal :: "message \<Rightarrow> result" where
  "fatal m = \<lparr>input = None, outputPath = None, error = Some m, success = False\<rparr>"

definition no_such_file :: "string \<Rightarrow> string" where
  "no_such_file p = ''ENOENT: no such file or directory, open '' @ p"

definition readFileSync :: "files \<Rightarrow> string \<Rightarrow> string + string" where
  "readFileSync fs p = (case fs p of None \<Rightarrow> Inl (no_such_file p) | Some c \<Rightarrow> Inr c)"

definition writeFileSync :: "'c batch_env \<Rightarrow> files \<Rightarrow> string \<Rightarrow> string \<Rightarrow> string + files" where
  "writeFileSync env fs p content =
     (case write_error env p of Some m \<Rightarrow> Inl m | None \<Rightarrow> Inr (fs(p \<mapsto> content)))"

definition given_dir :: "'c options \<Rightarrow> string option" where
  "given_dir opts =
     (case outputDir opts of None \<Rightarrow> None | Some d \<Rightarrow> if d = [] then None else Some d)"

definition outputPath_of :: "'c batch_env \<Rightarrow> 'c options \<Rightarrow> string \<Rightarrow> string" where
  "outputPath_of env opts file =
     (if overwrite opts then file
      else (case given_dir opts of
              Some d \<Rightarrow> path_join env d (path_basename env file)
            | None \<Rightarrow> file @ ''.converted.yaml''))"

text \<open>The body of the \<open>try\<close> block of one file in \<open>batchProcess\<close>.\<close>

definition convert_file ::
  "'c batch_env \<Rightarrow> 'c options \<Rightarrow> string \<Rightarrow> files \<Rightarrow> string \<Rightarrow> ((message + string) \<times> files) option" where
  "convert_file env opts script fs file =
     (case (case readFileSync fs file of Inl m \<Rightarrow> Inl m | Inr content \<Rightarrow> yaml_load env content) of
        Inl m \<Rightarrow> Some (Inl (ReadOrParseFailed m), fs)
      | Inr config \<Rightarrow>
          (case executeScript_option opts config script (path_stem env file) of
             None \<Rightarrow> None
           | Some (Inl m) \<Rightarrow> Some (Inl (Plain m), fs)
           | Some (Inr processedConfig) \<Rightarrow>
               (case (case yaml_dump env processedConfig of
                        Inl m \<Rightarrow> Inl m
                      | Inr yamlStr \<Rightarrow> writeFileSync env fs (outputPath_of env opts file) yamlStr) of
                  Inl m \<Rightarrow> Some (Inl (WriteFailed m), fs)
                | Inr fs' \<Rightarrow> Some (Inr (outputPath_of env opts file), fs'))))"

definition entry :: "string \<Rightarrow> message + string \<Rightarrow> result" where
  "entry file r = (case r of Inl m \<Rightarrow> failed file m | Inr path \<Rightarrow> succeeded file path)"

text \<open>
  The loop of \<open>batchProcess\<close> over the matched files; \<open>processedFiles\<close> are the paths
  already taken.
\<close>

fun process_files ::
  "'c batch_env \<Rightarrow> 'c options \<Rightarrow> string \<Rightarrow> string list \<Rightarrow> string list \<Rightarrow> files \<Rightarrow> (result list \<times> files) option" where
  "process_files env opts script [] processedFiles fs = Some ([], fs)"
| "process_files env opts script (file # rest) processedFiles fs =
     (if file \<in> set processedFiles then process_files env opts script rest processedFiles fs
      else
        (case convert_file env opts script fs file of
           None \<Rightarrow> None
         | Some (r, fs1) \<Rightarrow>
             (case process_files env opts script rest (file # processedFiles) fs1 of
                None \<Rightarrow> None
              | Some (rs, fs2) \<Rightarrow> Some (entry file r # rs, fs2))))"

text \<open>What precedes the loop, the same in both variants: the error thrown, or the script and the files.\<close>

definition prepare :: "'c batch_env \<Rightarrow> 'c options \<Rightarrow> files \<Rightarrow> message + string \<times> string list" where
  "prepare env opts fs =
     (case readFileSync fs (scriptPath opts) of
        Inl m \<Rightarrow> Inl (CannotReadScript (scriptPath opts) m)
      | Inr script \<Rightarrow>
          (case glob_sync env (inputPattern opts) of
             Inl m \<Rightarrow> Inl (InvalidPattern (inputPattern opts) m)
           | Inr matched \<Rightarrow>
               if matched = [] then Inr (script, [])
               else
                 (case (if overwrite opts then None
                        else (case given_dir opts of None \<Rightarrow> None | Some d \<Rightarrow>
                                (case ensure_dir env d of None \<Rightarrow> None
                                 | Some m \<Rightarrow> Some (CannotCreateDir d m)))) of
                    Some e \<Rightarrow> Inl e
                  | None \<Rightarrow> Inr (script, matched))))"

definition batchProcess :: "'c batch_env \<Rightarrow> 'c options \<Rightarrow> files \<Rightarrow> (result list \<times> files) option" where
  "batchProcess env opts fs =
     (case prepare env opts fs of
        Inl e \<Rightarrow> Some ([fatal e], fs)
      | Inr (script, matched) \<Rightarrow> process_files env opts script matched [] fs)"

text \<open>
  \<open>batchProcessParallel\<close>. The loop that cuts the files into groups adds \<open>concurrency\<close>
  to its index: with \<open>concurrency = 0\<close> it never ends.
\<close>

function slices :: "nat \<Rightarrow> string list \<Rightarrow> string list list" where
  "slices n xs = (if n = 0 \<or> xs = [] then [] else take n xs # slices n (drop n xs))"
  by pat_completeness auto

termination
  by (relation "measure (\<lambda>(n, xs). length xs)") auto

declare slices.simps [simp del]

definition fileGroups :: "nat \<Rightarrow> string list \<Rightarrow> string list list option" where
  "fileGroups n matched = (if n = 0 \<and> matched \<noteq> [] then None else Some (slices n matched))"

text \<open>
  \<open>processFile\<close> has no \<open>await\<close> in its body: each call runs to its end before the
  next one of the group starts. It records the messages as they are.
\<close>

definition processFile ::
  "'c batch_env \<Rightarrow> 'c options \<Rightarrow> string \<Rightarrow> files \<Rightarrow> string \<Rightarrow> (result \<times> files) option" where
  "processFile env opts script fs file =
     (case readFileSync fs file of
        Inl m \<Rightarrow> Some (failed file (Plain m), fs)
      | Inr content \<Rightarrow>
          (case yaml_load env content of
             Inl m \<Rightarrow> Some (failed file (Plain m), fs)
           | Inr config \<Rightarrow>
               (case executeScript_option opts config script (path_stem env file) of
                  None \<Rightarrow> None
                | Some (Inl m) \<Rightarrow> Some (failed file (Plain m), fs)
                | Some (Inr processedConfig) \<Rightarrow>
                    (case yaml_dump env processedConfig of
                       Inl m \<Rightarrow> Some (failed file (Plain m), fs)
                     | Inr yamlStr \<Rightarrow>
                         (case writeFileSync env fs (outputPath_of env opts file) yamlStr of
                            Inl m \<Rightarrow> Some (failed file (Plain m), fs)
                          | Inr fs' \<Rightarrow>
                              Some (succeeded file (outputPath_of env opts file), fs'))))))"

fun process_group ::
  "'c batch_env \<Rightarrow> 'c options \<Rightarrow> string \<Rightarrow> string list \<Rightarrow> files \<Rightarrow> (result list \<times> files) option" where
  "process_group env opts script [] fs = Some ([], fs)"
| "process_group env opts script (file # rest) fs =
     (case processFile env opts script fs file of
        None \<Rightarrow> None
      | Some (r, fs1) \<Rightarrow>
          (case process_group env opts script rest fs1 of
             None \<Rightarrow> None
           | Some (rs, fs2) \<Rightarrow> Some (r # rs, fs2)))"

fun process_groups ::
  "'c batch_env \<Rightarrow> 'c options \<Rightarrow> string \<Rightarrow> string list list \<Rightarrow> files \<Rightarrow> (result list \<times> files) option" where
  "process_groups env opts script [] fs = Some ([], fs)"
| "process_groups env opts script (g # gs) fs =
     (case process_group env opts script g fs of
        None \<Rightarrow> None
      | Some (groupResults, fs1) \<Rightarrow>
          (case process_groups env opts script gs fs1 of
             None \<Rightarrow> None
           | Some (rs, fs2) \<Rightarrow> Some (groupResults @ rs, fs2)))"

definition batchProcessParallel ::
  "'c batch_env \<Rightarrow> 'c options \<Rightarrow> files \<Rightarrow> ((message + result list) \<times> files) option" where
  "batchProcessParallel env opts fs =
     (case prepare env opts fs of
        Inl e \<Rightarrow> Some (Inl e, fs)
      | Inr (script, matched) \<Rightarrow>
          if matched = [] then Some (Inr [], fs)
          else
            (case fileGroups (concurrency opts) matched of
               None \<Rightarrow> None
             | Some groups \<Rightarrow>
                 (case process_groups env opts script groups fs of
                    None \<Rightarrow> None
                  | Some (rs, fs') \<Rightarrow> Some (Inr rs, fs'))))"

text \<open>
  The matched paths that are not among \<open>seen\<close>, each once, in the order of their first
  occurrence: the unique matched paths of the specification.
\<close>

fun unique_from :: "string list \<Rightarrow> string list \<Rightarrow> string list" where
  "unique_from seen [] = []"
| "unique_from seen (f # fs) =
     (if f \<in> set seen then unique_from seen fs else f # unique_from (f # seen) fs)"

text \<open>
  A batch for concrete runs. The configuration is its own text; the YAML parser
  rejects the text \<open>bad\<close>; the routine executor fails on the configuration
  \<open>port: 70000\<close> and returns any other configuration as it is given; the output goes
  to the directory \<open>out\<close>, where \<open>out/8.yaml\<close> cannot be written. There is no file
  \<open>6.yaml\<close>.
\<close>

definition sample_env :: "string list \<Rightarrow> string batch_env" where
  "sample_env matched =
     \<lparr>glob_sync = (\<lambda>pattern. Inr matched),
      yaml_load = (\<lambda>content. if content = ''bad'' then Inl ''bad indentation'' else Inr content),
      yaml_dump = (\<lambda>config. Inr config),
      path_basename = (\<lambda>file. file),
      path_stem = (\<lambda>file. file),
      path_join = (\<lambda>dir file. dir @ ''/'' @ file),
      ensure_dir = (\<lambda>dir. None),
      write_error = (\<lambda>path. if path = ''out/8.yaml'' then Some ''EACCES: permission denied''
                            else None)\<rparr>"

definition sample_options :: "string options" where
  "sample_options =
     \<lparr>inputPattern = ''*.yaml'',
      scriptPath = ''script.js'',
      outputDir = Some ''out'',
      overwrite = False,
      executeScript_option =
        (\<lambda>config script name.
           if config = ''port: 70000'' then Some (Inl ''port is not a valid port'')
           else Some (Inr config)),
      concurrency = 2\<rparr>"

definition sample_files :: files where
  "sample_files =
     [''script.js'' \<mapsto> ''function main(config) { return config; }'',
      ''1.yaml'' \<mapsto> ''mode: rule'',
      ''2.yaml'' \<mapsto> ''mode: global'',
      ''3.yaml'' \<mapsto> ''bad'',
      ''4.yaml'' \<mapsto> ''mode: direct'',
      ''5.yaml'' \<mapsto> ''port: 7890'',
      ''7.yaml'' \<mapsto> ''port: 70000'',
      ''8.yaml'' \<mapsto> ''mode: rule'']"

section \<open>downloadSubscription\<close>

text \<open>
  The data of a response is text, or the value the HTTP client has already parsed
  from a JSON body. The digest, the request and the JSON functions are parameters.
  The cache is a pair of files; the calls made on the file system are recorded.
  Writing a cache file may throw: \<open>cache_write_error env p\<close> is the message when
  writing to the path \<open>p\<close> does, and a write that throws leaves the files as they are.
  A text is the sequence of the bytes of its UTF-8 encoding.
\<close>

datatype body = Text string | Structured json

record response =
  data :: body
  headers :: json

record net_env =
  CACHE_DIR :: string
  md5_hex :: "string \<Rightarrow> string"
  axios_get :: "string \<Rightarrow> string + response"
  json_stringify :: "json \<Rightarrow> string"
  json_parse :: "string \<Rightarrow> json option"
  cache_write_error :: "string \<Rightarrow> string option"

datatype fs_call = ExistsSync string | ReadFileSync string | WriteFileSync string

datatype download_error = NoUsableCache string | CacheInvalid string

definition cachePath :: "net_env \<Rightarrow> string \<Rightarrow> string" where
  "cachePath env url = CACHE_DIR env @ ''/'' @ md5_hex env url @ ''.cache''"

definition headersCachePath :: "net_env \<Rightarrow> string \<Rightarrow> string" where
  "headersCachePath env url = CACHE_DIR env @ ''/'' @ md5_hex env url @ ''.headers.json''"

text \<open>
  The characters \<open>trim\<close> removes, each as its UTF-8 bytes: the white space and the
  line terminators of the language, that is TAB, LF, VT, FF, CR, SPACE, U+00A0,
  U+1680, U+2000 to U+200A, U+2028, U+2029, U+202F, U+205F, U+3000 and U+FEFF.
\<close>

definition white_space_codes :: "string list" where
  "white_space_codes =
     [[CHR 0x09], [CHR 0x0A], [CHR 0x0B], [CHR 0x0C], [CHR 0x0D], [CHR 0x20],
      [CHR 0xC2, CHR 0xA0],
      [CHR 0xE1, CHR 0x9A, CHR 0x80],
      [CHR 0xE2, CHR 0x80, CHR 0x80], [CHR 0xE2, CHR 0x80, CHR 0x81],
      [CHR 0xE2, CHR 0x80, CHR 0x82], [CHR 0xE2, CHR 0x80, CHR 0x83],
      [CHR 0xE2, CHR 0x80, CHR 0x84], [CHR 0xE2, CHR 0x80, CHR 0x85],
      [CHR 0xE2, CHR 0x80, CHR 0x86], [CHR 0xE2, CHR 0x80, CHR 0x87],
      [CHR 0xE2, CHR 0x80, CHR 0x88], [CHR 0xE2, CHR 0x80, CHR 0x89],
      [CHR 0xE2, CHR 0x80, CHR 0x8A],
      [CHR 0xE2, CHR 0x80, CHR 0xA8], [CHR 0xE2, CHR 0x80, CHR 0xA9],
      [CHR 0xE2, CHR 0x80, CHR 0xAF],
      [CHR 0xE2, CHR 0x81, CHR 0x9F],
      [CHR 0xE3, CHR 0x80, CHR 0x80],
      [CHR 0xEF, CHR 0xBB, CHR 0xBF]]"

text \<open>\<open>strip_code ps s\<close>: what is left of \<open>s\<close> after the first of the codes \<open>ps\<close> it starts with.\<close>

fun strip_code :: "string list \<Rightarrow> string \<Rightarrow> string option" where
  "strip_code [] s = None"
| "strip_code (p # ps) s =
     (if p \<noteq> [] \<and> starts_with s p then Some (drop (length p) s) else strip_code ps s)"

function strip_all :: "string list \<Rightarrow> string \<Rightarrow> string" where
  "strip_all ps s = (case strip_code ps s of None \<Rightarrow> s | Some rest \<Rightarrow> strip_all ps rest)"
  by pat_completeness auto

termination
proof (relation "measure (\<lambda>(ps, s). length s)")
  show "wf (measure (\<lambda>(ps, s). length s))"
    by simp
next
  fix ps :: "string list" and s rest :: string
  assume "strip_code ps s = Some rest"
  then have "length rest < length s"
  proof (induction ps)
    case Nil
    then show ?case by simp
  next
    case (Cons p ps)
    show ?case
    proof (cases "p \<noteq> [] \<and> starts_with s p")
      case True
      then have "s \<noteq> []"
        by (cases s; cases p) auto
      moreover from True Cons.prems have "rest = drop (length p) s"
        by simp
      ultimately show ?thesis
        using True by (cases p) auto
    next
      case False
      with Cons show ?thesis by auto
    qed
  qed
  then show "((ps, rest), (ps, s)) \<in> measure (\<lambda>(ps, s). length s)"
    by simp
qed

declare strip_all.simps [simp del]

definition trim :: "string \<Rightarrow> string" where
  "trim s = rev (strip_all (map rev white_space_codes) (rev (strip_all white_space_codes s)))"

definition body_text :: "net_env \<Rightarrow> body \<Rightarrow> string" where
  "body_text env content = (case content of Text s \<Rightarrow> s | Structured j \<Rightarrow> json_stringify env j)"

definition cache_write :: "net_env \<Rightarrow> files \<Rightarrow> string \<Rightarrow> string \<Rightarrow> string + files" where
  "cache_write env fs p content =
     (case cache_write_error env p of Some m \<Rightarrow> Inl m | None \<Rightarrow> Inr (fs(p \<mapsto> content)))"

text \<open>The headers read from the cache: none when the file is missing or is not JSON.\<close>

definition cached_headers :: "net_env \<Rightarrow> files \<Rightarrow> string \<Rightarrow> json" where
  "cached_headers env fs url =
     (case fs (headersCachePath env url) of
        None \<Rightarrow> JObj []
      | Some t \<Rightarrow> (case json_parse env t of None \<Rightarrow> JObj [] | Some j \<Rightarrow> j))"

definition headers_calls :: "net_env \<Rightarrow> files \<Rightarrow> string \<Rightarrow> fs_call list" where
  "headers_calls env fs url =
     (case fs (headersCachePath env url) of
        None \<Rightarrow> [ExistsSync (headersCachePath env url)]
      | Some t \<Rightarrow> [ExistsSync (headersCachePath env url), ReadFileSync (headersCachePath env url)])"

definition cached_content :: "net_env \<Rightarrow> string \<Rightarrow> body option" where
  "cached_content env cachedContent =
     (if starts_with (trim cachedContent) ''{''
      then (case json_parse env cachedContent of None \<Rightarrow> None | Some j \<Rightarrow> Some (Structured j))
      else Some (Text cachedContent))"

text \<open>
  The \<open>catch\<close> block: it is entered when the request has failed and also when one of
  the two writes of the cache has thrown, with the files as they are at that point
  and the calls made so far.
\<close>

definition fall_back ::
  "net_env \<Rightarrow> files \<Rightarrow> string \<Rightarrow> bool \<Rightarrow> fs_call list
     \<Rightarrow> (download_error + body \<times> json) \<times> files \<times> fs_call list" where
  "fall_back env fs url useCache made =
     (if \<not> useCache then (Inl (NoUsableCache url), fs, made)
      else
        (case fs (cachePath env url) of
           None \<Rightarrow> (Inl (NoUsableCache url), fs, made @ [ExistsSync (cachePath env url)])
         | Some cachedContent \<Rightarrow>
             ((case cached_content env cachedContent of
                 None \<Rightarrow> Inl (CacheInvalid url)
               | Some content \<Rightarrow> Inr (content, cached_headers env fs url)),
              fs,
              made @ [ExistsSync (cachePath env url), ReadFileSync (cachePath env url)]
                @ headers_calls env fs url)))"

definition downloadSubscription ::
  "net_env \<Rightarrow> files \<Rightarrow> string \<Rightarrow> bool \<Rightarrow> (download_error + body \<times> json) \<times> files \<times> fs_call list" where
  "downloadSubscription env fs url useCache =
     (case axios_get env url of
        Inl cause \<Rightarrow> fall_back env fs url useCache []
      | Inr resp \<Rightarrow>
          (case cache_write env fs (cachePath env url) (body_text env (data resp)) of
             Inl m \<Rightarrow> fall_back env fs url useCache [WriteFileSync (cachePath env url)]
           | Inr fs1 \<Rightarrow>
               (case cache_write env fs1 (headersCachePath env url)
                       (json_stringify env (headers resp)) of
                  Inl m \<Rightarrow>
                    fall_back env fs1 url useCache
                      [WriteFileSync (cachePath env url), WriteFileSync (headersCachePath env url)]
                | Inr fs2 \<Rightarrow>
                    (Inr (data resp, headers resp), fs2,
                     [WriteFileSync (cachePath env url), WriteFileSync (headersCachePath env url)]))))"

text \<open>
  An environment for concrete runs. Every URL has the digest \<open>k\<close>; the JSON parser
  knows the texts \<open>{}\<close> and \<open>{"a":1}\<close> only. In \<open>readonly_cache_env\<close> every request
  succeeds with the text \<open>mode: global\<close> and no cache file can be written.
\<close>

definition sample_parse :: "string \<Rightarrow> json option" where
  "sample_parse t =
     (if t = ''{}'' then Some (JObj [])
      else if t = [CHR ''{'', CHR 0x22, CHR ''a'', CHR 0x22, CHR '':'', CHR ''1'', CHR ''}'']
        then Some (JObj [(''a'', JNum 1)])
      else None)"

definition readonly_cache_env :: net_env where
  "readonly_cache_env =
     \<lparr>CACHE_DIR = ''cache'',
      md5_hex = (\<lambda>url. ''k''),
      axios_get = (\<lambda>url. Inr \<lparr>data = Text ''mode: global'', headers = JObj []\<rparr>),
      json_stringify = (\<lambda>j. ''{}''),
      json_parse = sample_parse,
      cache_write_error = (\<lambda>path. Some ''EACCES: permission denied'')\<rparr>"

section \<open>Strict validation\<close>

lemma first_error_find: "first_error (map violation xs) = map_option snd (find fst xs)"
  by (induction xs) auto

lemma first_error_append_None: "first_error xs = None \<Longrightarrow> first_error (xs @ ys) = first_error ys"
  by (induction xs rule: first_error.induct) auto

lemma first_error_append_Some: "first_error xs = Some e \<Longrightarrow> first_error (xs @ ys) = Some e"
  by (induction xs rule: first_error.induct) auto

lemma first_error_nested: "first_error (first_error ys # zs) = first_error (ys @ zs)"
  by (cases "first_error ys") (simp_all add: first_error_append_None first_error_append_Some)

lemma check_port_fields_first:
  "check_port_fields h c fs
     = first_error (map (\<lambda>f. violation (bad_port (get_prop h c (field_name f)), InvalidPort f)) fs)"
  by (induction fs) auto

lemma bad_port_finite:
  "v \<noteq> VNum NaN \<Longrightarrow>
     bad_port v \<longleftrightarrow> v \<noteq> VUndef \<and> (\<forall>q. v = VNum (Fin q) \<longrightarrow> q < 0 \<or> 65535 < q)"
proof (cases v)
  case (VNum n)
  assume "v \<noteq> VNum NaN"
  with VNum show ?thesis
    by (cases n) auto
qed auto

lemma validateConfig_as_list:
  "validateConfig h config True =
     first_error
       [violation (\<not> truthy config \<or> typeof config \<noteq> TObject, ConfigMustBeObject),
        violation (truthy (get_prop h config ''rules'') \<and> \<not> isArray h (get_prop h config ''rules''),
          MustBeArray Rules),
        violation (truthy (get_prop h config ''proxies'') \<and> \<not> isArray h (get_prop h config ''proxies''),
          MustBeArray Proxies),
        violation (truthy (get_prop h config ''proxy-groups'')
            \<and> \<not> isArray h (get_prop h config ''proxy-groups''),
          MustBeArray ProxyGroups),
        violation (bad_port (get_prop h config ''port''), InvalidPort Port),
        violation (bad_port (get_prop h config ''socks-port''), InvalidPort SocksPort),
        violation (bad_port (get_prop h config ''mixed-port''), InvalidPort MixedPort),
        violation (truthy (get_prop h config ''mode'')
            \<and> get_prop h config ''mode'' \<notin> {VStr ''rule'', VStr ''global'', VStr ''direct''},
          InvalidMode)]"
proof -
  have ports: "check_port_fields h config portFields
      = first_error
          [violation (bad_port (get_prop h config ''port''), InvalidPort Port),
           violation (bad_port (get_prop h config ''socks-port''), InvalidPort SocksPort),
           violation (bad_port (get_prop h config ''mixed-port''), InvalidPort MixedPort)]"
    by (simp only: check_port_fields_first portFields_def list.map field_name.simps)
  have arr: "check_array_field h config f
      = violation (truthy (get_prop h config (field_name f)) \<and> \<not> isArray h (get_prop h config (field_name f)),
          MustBeArray f)" for f
    by (simp add: check_array_field_def Let_def)
  have mode: "check_mode h config
      = violation (truthy (get_prop h config ''mode'')
            \<and> get_prop h config ''mode'' \<notin> {VStr ''rule'', VStr ''global'', VStr ''direct''},
          InvalidMode)"
    by (simp add: check_mode_def Let_def mode_values_def)
  let ?rest = "[check_array_field h config Rules, check_array_field h config Proxies,
           check_array_field h config ProxyGroups, check_port_fields h config portFields,
           check_mode h config]"
  have head: "validateConfig h config True
      = first_error (violation (\<not> truthy config \<or> typeof config \<noteq> TObject, ConfigMustBeObject) # ?rest)"
    by (simp add: validateConfig_def del: first_error.simps(2,3)) (simp add: validateConfig_def)
  have mid: "first_error [a, b, c, first_error ys, e] = first_error ([a, b, c] @ ys @ [e])"
    for a b c e :: "err_text option" and ys
    by (cases a; cases b; cases c) (simp_all add: first_error_nested)
  show ?thesis
    unfolding head ports
    by (cases "\<not> truthy config \<or> typeof config \<noteq> TObject")
       (simp_all only: violation.simps if_True if_False first_error.simps mid arr mode
          field_name.simps append.simps)
qed

text \<open>
  Claim C3, as amended. Strict validation (\<open>validateConfig\<close> with \<open>isResult\<close> set) runs
  its checks in a fixed order: the value is truthy with \<open>typeof\<close> \<open>object\<close>; each of
  \<open>rules\<close>, \<open>proxies\<close> and \<open>proxy-groups\<close>, in this order, is falsy or an array; each
  of \<open>port\<close>, \<open>socks-port\<close> and \<open>mixed-port\<close>, in this order, is \<open>undefined\<close> or a
  number that is neither below \<open>0\<close> nor above \<open>65535\<close>, an integer or not; \<open>mode\<close> is
  falsy or one of \<open>rule\<close>, \<open>global\<close>, \<open>direct\<close>. It succeeds if and only if no check
  is violated, and it fails with the error of the first check that is, which names
  the field of that check. This is stated for results none of whose port fields is
  NaN.
\<close>

theorem validateConfig_strict_characterised:
  assumes "\<forall>f \<in> {Port, SocksPort, MixedPort}. get_prop h config (field_name f) \<noteq> VNum NaN"
  shows "validateConfig h config True =
     map_option snd (find fst
       [(\<not> truthy config \<or> typeof config \<noteq> TObject, ConfigMustBeObject),
        (truthy (get_prop h config ''rules'') \<and> \<not> isArray h (get_prop h config ''rules''),
          MustBeArray Rules),
        (truthy (get_prop h config ''proxies'') \<and> \<not> isArray h (get_prop h config ''proxies''),
          MustBeArray Proxies),
        (truthy (get_prop h config ''proxy-groups'') \<and> \<not> isArray h (get_prop h config ''proxy-groups''),
          MustBeArray ProxyGroups),
        (get_prop h config ''port'' \<noteq> VUndef
            \<and> (\<forall>q. get_prop h config ''port'' = VNum (Fin q) \<longrightarrow> q < 0 \<or> 65535 < q),
          InvalidPort Port),
        (get_prop h config ''socks-port'' \<noteq> VUndef
            \<and> (\<forall>q. get_prop h config ''socks-port'' = VNum (Fin q) \<longrightarrow> q < 0 \<or> 65535 < q),
          InvalidPort SocksPort),
        (get_prop h config ''mixed-port'' \<noteq> VUndef
            \<and> (\<forall>q. get_prop h config ''mixed-port'' = VNum (Fin q) \<longrightarrow> q < 0 \<or> 65535 < q),
          InvalidPort MixedPort),
        (truthy (get_prop h config ''mode'')
            \<and> get_prop h config ''mode'' \<notin> {VStr ''rule'', VStr ''global'', VStr ''direct''},
          InvalidMode)])"
proof -
  have "bad_port (get_prop h config ''port'')
      \<longleftrightarrow> get_prop h config ''port'' \<noteq> VUndef
          \<and> (\<forall>q. get_prop h config ''port'' = VNum (Fin q) \<longrightarrow> q < 0 \<or> 65535 < q)"
    "bad_port (get_prop h config ''socks-port'')
      \<longleftrightarrow> get_prop h config ''socks-port'' \<noteq> VUndef
          \<and> (\<forall>q. get_prop h config ''socks-port'' = VNum (Fin q) \<longrightarrow> q < 0 \<or> 65535 < q)"
    "bad_port (get_prop h config ''mixed-port'')
      \<longleftrightarrow> get_prop h config ''mixed-port'' \<noteq> VUndef
          \<and> (\<forall>q. get_prop h config ''mixed-port'' = VNum (Fin q) \<longrightarrow> q < 0 \<or> 65535 < q)"
    using assms by (simp_all add: bad_port_finite)
  then show ?thesis
    unfolding validateConfig_as_list
    by (simp only: first_error_find[symmetric] list.map violation.simps)
qed

text \<open>
  The theorem at three results: one with \<open>port: 70000\<close>, which fails naming \<open>port\<close>; one
  with \<open>port: 70000\<close> and \<open>rules: 'x'\<close>, which fails naming \<open>rules\<close>, the first of the
  two; one that passes.
\<close>

theorem validateConfig_strict_characterised_witness:
  "validateConfig [CObj [(''port'', VNum (Fin 70000))]] (VRef 0) True = Some (InvalidPort Port)
   \<and> validateConfig [CObj [(''port'', VNum (Fin 70000)), (''rules'', VStr ''x'')]] (VRef 0) True
       = Some (MustBeArray Rules)
   \<and> validateConfig
        [CObj [(''rules'', VRef 1), (''port'', VNum (Fin 7890)), (''mode'', VStr ''rule'')], CArr []]
        (VRef 0) True = None"
proof -
  let ?h1 = "[CObj [(''port'', VNum (Fin 70000))]]"
  let ?h2 = "[CObj [(''port'', VNum (Fin 70000)), (''rules'', VStr ''x'')]]"
  let ?h3 = "[CObj [(''rules'', VRef 1), (''port'', VNum (Fin 7890)), (''mode'', VStr ''rule'')], CArr []]"
  have a: "\<forall>f \<in> {Port, SocksPort, MixedPort}. get_prop ?h1 (VRef 0) (field_name f) \<noteq> VNum NaN"
    by simp
  have b: "\<forall>f \<in> {Port, SocksPort, MixedPort}. get_prop ?h2 (VRef 0) (field_name f) \<noteq> VNum NaN"
    by simp
  have c: "\<forall>f \<in> {Port, SocksPort, MixedPort}. get_prop ?h3 (VRef 0) (field_name f) \<noteq> VNum NaN"
    by simp
  have "validateConfig ?h1 (VRef 0) True = Some (InvalidPort Port)"
    unfolding validateConfig_strict_characterised[OF a] by simp
  moreover have "validateConfig ?h2 (VRef 0) True = Some (MustBeArray Rules)"
    unfolding validateConfig_strict_characterised[OF b] by simp
  moreover have "validateConfig ?h3 (VRef 0) True = None"
    unfolding validateConfig_strict_characterised[OF c] by simp
  ultimately show ?thesis
    by simp
qed

text \<open>
  Claim C3 as the specification words it fails: a result with \<open>port: 80.5\<close> passes
  though the port is not an integer, and a result with \<open>rules: null\<close> passes though
  the key is present and its value is not a sequence.
\<close>

theorem validateConfig_strict_counterexample:
  "validateConfig [CObj [(''port'', VNum (Fin (161 / 2)))]] (VRef 0) True = None
   \<and> \<not> spec_validateStrict [CObj [(''port'', VNum (Fin (161 / 2)))]] (VRef 0)
   \<and> validateConfig [CObj [(''rules'', VNull)]] (VRef 0) True = None
   \<and> \<not> spec_validateStrict [CObj [(''rules'', VNull)]] (VRef 0)"
  by code_simp

section \<open>The checks of executeScript\<close>

lemma first_error_member: "first_error (map violation xs) = Some e \<Longrightarrow> e \<in> snd ` set xs"
  by (induction xs) (auto split: if_splits)

lemma validation_error_not_foreign:
  assumes "validateConfig h v True = Some e"
  shows "rethrow (JsError False e) = ScriptFailed PlainFailure e \<and> e \<noteq> MustReturnObject \<and> e \<noteq> ScriptTimedOut"
proof -
  let ?xs = "[(\<not> truthy v \<or> typeof v \<noteq> TObject, ConfigMustBeObject),
        (truthy (get_prop h v ''rules'') \<and> \<not> isArray h (get_prop h v ''rules''),
          MustBeArray Rules),
        (truthy (get_prop h v ''proxies'') \<and> \<not> isArray h (get_prop h v ''proxies''),
          MustBeArray Proxies),
        (truthy (get_prop h v ''proxy-groups'') \<and> \<not> isArray h (get_prop h v ''proxy-groups''),
          MustBeArray ProxyGroups),
        (bad_port (get_prop h v ''port''), InvalidPort Port),
        (bad_port (get_prop h v ''socks-port''), InvalidPort SocksPort),
        (bad_port (get_prop h v ''mixed-port''), InvalidPort MixedPort),
        (truthy (get_prop h v ''mode'')
            \<and> get_prop h v ''mode'' \<notin> {VStr ''rule'', VStr ''global'', VStr ''direct''},
          InvalidMode)]"
  from assms have "first_error (map violation ?xs) = Some e"
    unfolding validateConfig_as_list by (simp only: list.map)
  then have "e \<in> snd ` set ?xs"
    by (rule first_error_member)
  then have "e \<in> {ConfigMustBeObject, MustBeArray Rules, MustBeArray Proxies, MustBeArray ProxyGroups,
      InvalidPort Port, InvalidPort SocksPort, InvalidPort MixedPort, InvalidMode}"
    by auto
  then show ?thesis
    by auto
qed

lemma executeScript_after_return:
  assumes "validateConfig h config False = None"
    and "deep_copy hst h config = Some (Inr copy, h1)"
    and "includes_str script ''function main''"
    and "compile eng script = None"
    and "run eng script h1 copy name = MainReturns v elapsed h2"
  shows "executeScript hst eng h config script name =
     Some (if elapsed > 9000 then Inl (ScriptFailed PlainFailure ScriptTimedOut)
           else if \<not> truthy v \<or> typeof v \<noteq> TObject then Inl (ScriptFailed PlainFailure MustReturnObject)
           else (case validateConfig h2 v True of
                   Some e \<Rightarrow> Inl (ScriptFailed PlainFailure e)
                 | None \<Rightarrow> Inr v), h2)"
proof (cases "validateConfig h2 v True")
  case None
  then show ?thesis
    using assms
    by (simp add: executeScript_def try_block_def invoke_def finish_def checkTimeout_def
        check_result_def hasTimedOut_def timeoutMs_def)
next
  case (Some e)
  then show ?thesis
    using assms validation_error_not_foreign[OF Some]
    by (simp add: executeScript_def try_block_def invoke_def finish_def checkTimeout_def
        check_result_def hasTimedOut_def timeoutMs_def)
qed

text \<open>
  Claim C4, as amended. When \<open>main\<close> returns and the deadline check passes,
  \<open>executeScript\<close> fails with the error of an invalid return exactly when the value
  returned is falsy or its \<open>typeof\<close> is not \<open>object\<close>: \<open>undefined\<close>, \<open>null\<close>, a boolean,
  a number, a string or a function is rejected, before strict validation. An array
  is not rejected by this check: it goes on to strict validation like any object.
\<close>

theorem invalid_return_rejected:
  assumes "validateConfig h config False = None"
    and "deep_copy hst h config = Some (Inr copy, h1)"
    and "includes_str script ''function main''"
    and "compile eng script = None"
    and "run eng script h1 copy name = MainReturns v elapsed h2"
    and "elapsed \<le> 9000"
  shows "(executeScript hst eng h config script name
            = Some (Inl (ScriptFailed PlainFailure MustReturnObject), h2)
          \<longleftrightarrow> \<not> truthy v \<or> typeof v \<noteq> TObject)
     \<and> (v \<in> {VUndef, VNull} \<union> range VBool \<union> range VNum \<union> range VStr \<union> range VFun
          \<longrightarrow> executeScript hst eng h config script name
                = Some (Inl (ScriptFailed PlainFailure MustReturnObject), h2))
     \<and> (isArray h2 v
          \<longrightarrow> executeScript hst eng h config script name
                = Some (case validateConfig h2 v True of
                          Some e \<Rightarrow> Inl (ScriptFailed PlainFailure e)
                        | None \<Rightarrow> Inr v, h2))"
proof -
  have arr: "truthy v \<and> typeof v = TObject" if "isArray h2 v"
    using that by (cases v) auto
  have prim: "\<not> truthy v \<or> typeof v \<noteq> TObject"
    if "v \<in> {VUndef, VNull} \<union> range VBool \<union> range VNum \<union> range VStr \<union> range VFun"
    using that by auto
  have neq: "validateConfig h2 v True = Some e \<Longrightarrow> e \<noteq> MustReturnObject" for e
    using validation_error_not_foreign by blast
  show ?thesis
    unfolding executeScript_after_return[OF assms(1-5)]
    using assms(6) arr prim neq
    by (auto split: option.splits)
qed

text \<open>The theorem at a routine that returns \<open>null\<close>, and at one that returns \<open>7\<close>.\<close>

theorem invalid_return_rejected_witness:
  "executeScript plain_host (constant_engine VNull 0) [CObj []] (VRef 0)
        ''function main(config) { return null; }'' ''''
      = Some (Inl (ScriptFailed PlainFailure MustReturnObject), [CObj [], CObj []])
   \<and> executeScript plain_host (constant_engine (VNum (Fin 7)) 0) [CObj []] (VRef 0)
        ''function main(config) { return null; }'' ''''
      = Some (Inl (ScriptFailed PlainFailure MustReturnObject), [CObj [], CObj []])"
proof -
  let ?src = "''function main(config) { return null; }''"
  have 1: "validateConfig [CObj []] (VRef 0) False = None"
    by code_simp
  have 2: "deep_copy plain_host [CObj []] (VRef 0) = Some (Inr (VRef 1), [CObj [], CObj []])"
    by code_simp
  have 3: "includes_str ?src ''function main''"
    by code_simp
  have 4: "compile (constant_engine v 0) ?src = None" for v
    by (simp add: constant_engine_def)
  have 5: "run (constant_engine v 0) ?src [CObj [], CObj []] (VRef 1) ''''
      = MainReturns v 0 [CObj [], CObj []]" for v
    by (simp add: constant_engine_def)
  have 6: "(0::int) \<le> 9000"
    by simp
  from invalid_return_rejected[OF 1 2 3 4 5 6, of VNull]
    invalid_return_rejected[OF 1 2 3 4 5 6, of "VNum (Fin 7)"]
  show ?thesis
    by simp
qed

text \<open>
  Claim C4 as stated fails: a routine that returns an empty array, which is not a
  mapping, is not rejected, and the call returns the array; and a routine that returns
  \<open>null\<close> after 9500 ms fails with the timeout error, not with the one of an invalid
  return.
\<close>

theorem invalid_return_counterexample:
  "run array_engine ''function main(config) { return []; }'' [CObj [], CObj []] (VRef 1) ''''
      = MainReturns (VRef 2) 0 [CObj [], CObj [], CArr []]
   \<and> \<not> is_mapping [CObj [], CObj [], CArr []] (VRef 2)
   \<and> executeScript plain_host array_engine [CObj []] (VRef 0) ''function main(config) { return []; }'' ''''
      = Some (Inr (VRef 2), [CObj [], CObj [], CArr []])
   \<and> run (constant_engine VNull 9500) ''function main(config) { return null; }''
        [CObj [], CObj []] (VRef 1) '''' = MainReturns VNull 9500 [CObj [], CObj []]
   \<and> \<not> is_mapping [CObj [], CObj []] VNull
   \<and> executeScript plain_host (constant_engine VNull 9500) [CObj []] (VRef 0)
        ''function main(config) { return null; }'' ''''
      = Some (Inl (ScriptFailed PlainFailure ScriptTimedOut), [CObj [], CObj []])"
  by code_simp

text \<open>
  Claim C6, as amended. The deadline is checked once after \<open>main\<close> has returned,
  against the budget of 10 s less one second: a call whose \<open>main\<close> returned after more
  than 9000 ms fails with the timeout error although a result was produced, and one
  whose \<open>main\<close> returned within 9000 ms is not rejected for timeout.
\<close>

theorem deadline_check_after_return:
  assumes "validateConfig h config False = None"
    and "deep_copy hst h config = Some (Inr copy, h1)"
    and "includes_str script ''function main''"
    and "compile eng script = None"
    and "run eng script h1 copy name = MainReturns v elapsed h2"
  shows "(elapsed > 9000 \<longrightarrow>
            executeScript hst eng h config script name
              = Some (Inl (ScriptFailed PlainFailure ScriptTimedOut), h2))
     \<and> (elapsed \<le> 9000 \<longrightarrow>
            (\<forall>k. executeScript hst eng h config script name
              \<noteq> Some (Inl (ScriptFailed k ScriptTimedOut), h2)))"
proof -
  have neq: "validateConfig h2 v True = Some e \<Longrightarrow> e \<noteq> ScriptTimedOut" for e
    using validation_error_not_foreign by blast
  show ?thesis
    unfolding executeScript_after_return[OF assms(1-5)]
    using neq by (auto split: option.splits)
qed

text \<open>The theorem at a routine that returns after 9001 ms, and at one that returns after 9000 ms.\<close>

theorem deadline_check_after_return_witness:
  "executeScript plain_host (echo_engine 9001) [CObj []] (VRef 0)
        ''function main(config) { return config; }'' ''''
      = Some (Inl (ScriptFailed PlainFailure ScriptTimedOut), [CObj [], CObj []])
   \<and> executeScript plain_host (echo_engine 9000) [CObj []] (VRef 0)
        ''function main(config) { return config; }'' ''''
      \<noteq> Some (Inl (ScriptFailed PlainFailure ScriptTimedOut), [CObj [], CObj []])"
proof -
  let ?src = "''function main(config) { return config; }''"
  have 1: "validateConfig [CObj []] (VRef 0) False = None"
    by code_simp
  have 2: "deep_copy plain_host [CObj []] (VRef 0) = Some (Inr (VRef 1), [CObj [], CObj []])"
    by code_simp
  have 3: "includes_str ?src ''function main''"
    by code_simp
  have 4: "compile (echo_engine t) ?src = None" for t
    by (simp add: echo_engine_def)
  have 5: "run (echo_engine t) ?src [CObj [], CObj []] (VRef 1) ''''
      = MainReturns (VRef 1) t [CObj [], CObj []]" for t
    by (simp add: echo_engine_def)
  from deadline_check_after_return[OF 1 2 3 4 5, of 9001] deadline_check_after_return[OF 1 2 3 4 5, of 9000]
  show ?thesis
    by simp
qed

text \<open>
  Claim C6 as stated fails: a routine that returns after 9500 ms is within the budget
  of 10 s, and the call is rejected for timeout.
\<close>

theorem deadline_counterexample:
  "(9500 :: int) \<le> timeoutMs
   \<and> run (echo_engine 9500) ''function main(config) { return config; }''
        [CObj [], CObj []] (VRef 1) '''' = MainReturns (VRef 1) 9500 [CObj [], CObj []]
   \<and> executeScript plain_host (echo_engine 9500) [CObj []] (VRef 0)
        ''function main(config) { return config; }'' ''''
      = Some (Inl (ScriptFailed PlainFailure ScriptTimedOut), [CObj [], CObj []])"
  by code_simp

lemma try_block_engine_independent:
  "\<not> includes_str script ''function main'' \<Longrightarrow>
     try_block hst eng h config script name = try_block hst eng' h config script name"
  by (simp add: try_block_def split: option.splits prod.splits sum.splits)

text \<open>
  Claim C5, as amended. A routine source that does not contain the text
  \<open>function main\<close> makes \<open>executeScript\<close> fail with the error of the missing entry
  point, whatever the engine would do with the source: nothing is compiled (the
  input validation and the deep copy come first, and their failures with them). A
  source that contains the text passes the check: the \<open>try\<close> block goes on to compile
  it, a compilation error is what the call reports, and a source that compiles and
  leaves \<open>main\<close> unbound fails only then, with the error of a \<open>main\<close> that is not a
  function.
\<close>

theorem missing_main_fails_fast:
  "(\<not> includes_str script ''function main'' \<longrightarrow>
      executeScript hst eng h config script name = executeScript hst eng' h config script name)
   \<and> (\<not> includes_str script ''function main'' \<and> validateConfig h config False = None
        \<and> deep_copy hst h config = Some (Inr copy, h1) \<longrightarrow>
      executeScript hst eng h config script name
        = Some (Inl (ScriptFailed PlainFailure MissingMainDecl), h1))
   \<and> (includes_str script ''function main'' \<and> deep_copy hst h config = Some (Inr copy, h1) \<longrightarrow>
      try_block hst eng h config script name = invoke eng h1 copy script name)
   \<and> (includes_str script ''function main'' \<and> validateConfig h config False = None
        \<and> deep_copy hst h config = Some (Inr copy, h1) \<and> compile eng script = Some m \<longrightarrow>
      executeScript hst eng h config script name
        = Some (Inl (ScriptFailed SyntaxFailure (Foreign m)), h1))
   \<and> (includes_str script ''function main'' \<and> validateConfig h config False = None
        \<and> deep_copy hst h config = Some (Inr copy, h1) \<and> compile eng script = None
        \<and> run eng script h1 copy name = MainUndefined h2 \<longrightarrow>
      executeScript hst eng h config script name
        = Some (Inl (ScriptFailed PlainFailure MainNotFunction), h2))"
proof -
  have a: "executeScript hst eng h config script name = executeScript hst eng' h config script name"
    if "\<not> includes_str script ''function main''"
    unfolding executeScript_def try_block_engine_independent[OF that, of hst eng h config name eng']
    by (rule refl)
  have b: "executeScript hst eng h config script name
        = Some (Inl (ScriptFailed PlainFailure MissingMainDecl), h1)"
    if "\<not> includes_str script ''function main''" "validateConfig h config False = None"
      "deep_copy hst h config = Some (Inr copy, h1)"
    using that by (simp add: executeScript_def try_block_def)
  have c: "try_block hst eng h config script name = invoke eng h1 copy script name"
    if "includes_str script ''function main''" "deep_copy hst h config = Some (Inr copy, h1)"
    using that by (simp add: try_block_def)
  have d: "executeScript hst eng h config script name
        = Some (Inl (ScriptFailed SyntaxFailure (Foreign m)), h1)"
    if "includes_str script ''function main''" "validateConfig h config False = None"
      "deep_copy hst h config = Some (Inr copy, h1)" "compile eng script = Some m"
    using that by (simp add: executeScript_def try_block_def invoke_def)
  have e: "executeScript hst eng h config script name
        = Some (Inl (ScriptFailed PlainFailure MainNotFunction), h2)"
    if "includes_str script ''function main''" "validateConfig h config False = None"
      "deep_copy hst h config = Some (Inr copy, h1)" "compile eng script = None"
      "run eng script h1 copy name = MainUndefined h2"
    using that by (simp add: executeScript_def try_block_def invoke_def finish_def)
  from a b c d e show ?thesis
    by blast
qed

text \<open>
  The theorem at a source that binds \<open>main\<close> without the text, rejected alike with
  an engine that would run it and with one that finds a syntax error in every source;
  at a source with the text that declares \<open>main\<close>, which goes on to the engine and
  fails with the syntax error of the second; and at one with the text that declares
  \<open>mainframe\<close>.
\<close>

theorem missing_main_fails_fast_witness:
  "\<not> includes_str ''const main = (config) => config;'' ''function main''
   \<and> executeScript plain_host (echo_engine 0) [CObj []] (VRef 0) ''const main = (config) => config;'' ''''
        = Some (Inl (ScriptFailed PlainFailure MissingMainDecl), [CObj [], CObj []])
   \<and> executeScript plain_host (failing_engine ''Unexpected token'') [CObj []] (VRef 0)
          ''const main = (config) => config;'' ''''
        = Some (Inl (ScriptFailed PlainFailure MissingMainDecl), [CObj [], CObj []])
   \<and> includes_str ''function main(config) { return config; }'' ''function main''
   \<and> try_block plain_host (echo_engine 0) [CObj []] (VRef 0)
          ''function main(config) { return config; }'' ''''
        = invoke (echo_engine 0) [CObj [], CObj []] (VRef 1)
            ''function main(config) { return config; }'' ''''
   \<and> executeScript plain_host (failing_engine ''Unexpected token'') [CObj []] (VRef 0)
          ''function main(config) { return config; }'' ''''
        = Some (Inl (ScriptFailed SyntaxFailure (Foreign ''Unexpected token'')), [CObj [], CObj []])
   \<and> includes_str ''function mainframe() {}'' ''function main''
   \<and> executeScript plain_host js_engine [CObj []] (VRef 0) ''function mainframe() {}'' ''''
        = Some (Inl (ScriptFailed PlainFailure MainNotFunction), [CObj [], CObj []])"
proof -
  have 1: "validateConfig [CObj []] (VRef 0) False = None"
    by code_simp
  have 2: "deep_copy plain_host [CObj []] (VRef 0) = Some (Inr (VRef 1), [CObj [], CObj []])"
    by code_simp
  have 3: "\<not> includes_str ''const main = (config) => config;'' ''function main''"
    by code_simp
  have 4: "includes_str ''function main(config) { return config; }'' ''function main''"
    by code_simp
  have 5: "includes_str ''function mainframe() {}'' ''function main''"
    by code_simp
  have 6: "compile js_engine ''function mainframe() {}'' = None"
    by (simp add: js_engine_def)
  have 7: "run js_engine ''function mainframe() {}'' [CObj [], CObj []] (VRef 1) ''''
      = MainUndefined [CObj [], CObj []]"
    by (simp add: js_engine_def)
  have 8: "compile (failing_engine ''Unexpected token'') ''function main(config) { return config; }''
      = Some ''Unexpected token''"
    by (simp add: failing_engine_def)
  note t = missing_main_fails_fast[where hst = plain_host and h = "[CObj []]" and config = "VRef 0"
      and name = "''''" and copy = "VRef 1" and ?h1.0 = "[CObj [], CObj []]"]
  note t1 = t[where script = "''const main = (config) => config;''" and eng = "echo_engine 0"
        and eng' = "failing_engine ''Unexpected token''"]
  from t1 1 2 3
  have a: "executeScript plain_host (echo_engine 0) [CObj []] (VRef 0)
      ''const main = (config) => config;'' ''''
        = Some (Inl (ScriptFailed PlainFailure MissingMainDecl), [CObj [], CObj []])"
    by blast
  from t1 3
  have "executeScript plain_host (echo_engine 0) [CObj []] (VRef 0)
      ''const main = (config) => config;'' ''''
     = executeScript plain_host (failing_engine ''Unexpected token'') [CObj []] (VRef 0)
      ''const main = (config) => config;'' ''''"
    by blast
  with a have a': "executeScript plain_host (failing_engine ''Unexpected token'') [CObj []] (VRef 0)
      ''const main = (config) => config;'' ''''
        = Some (Inl (ScriptFailed PlainFailure MissingMainDecl), [CObj [], CObj []])"
    by simp
  from t[where script = "''function main(config) { return config; }''" and eng = "echo_engine 0"
        and eng' = "echo_engine 0"] 2 4
  have b: "try_block plain_host (echo_engine 0) [CObj []] (VRef 0)
          ''function main(config) { return config; }'' ''''
        = invoke (echo_engine 0) [CObj [], CObj []] (VRef 1)
            ''function main(config) { return config; }'' ''''"
    by blast
  from t[where script = "''function main(config) { return config; }''"
        and eng = "failing_engine ''Unexpected token''" and eng' = "echo_engine 0"
        and m = "''Unexpected token''"] 1 2 4 8
  have b': "executeScript plain_host (failing_engine ''Unexpected token'') [CObj []] (VRef 0)
          ''function main(config) { return config; }'' ''''
        = Some (Inl (ScriptFailed SyntaxFailure (Foreign ''Unexpected token'')), [CObj [], CObj []])"
    by blast
  from t[where script = "''function mainframe() {}''" and eng = js_engine and eng' = js_engine
        and ?h2.0 = "[CObj [], CObj []]"] 1 2 5 6 7
  have c: "executeScript plain_host js_engine [CObj []] (VRef 0) ''function mainframe() {}'' ''''
        = Some (Inl (ScriptFailed PlainFailure MainNotFunction), [CObj [], CObj []])"
    by blast
  from a a' b b' c 3 4 5 show ?thesis
    by (intro conjI)
qed

text \<open>
  Claim C5 as the specification words it fails in both directions. The source
  \<open>const main = (config) => config;\<close> declares \<open>main\<close> and would run, and is rejected
  with the error of the missing entry point. The source \<open>// function main\<close> declares
  nothing and passes the check: it is compiled, and fails with the error of a \<open>main\<close>
  that is not a function.
\<close>

theorem missing_main_counterexample:
  "run js_engine ''const main = (config) => config;'' [CObj [], CObj []] (VRef 1) ''''
      = MainReturns (VRef 1) 0 [CObj [], CObj []]
   \<and> executeScript plain_host js_engine [CObj []] (VRef 0) ''const main = (config) => config;'' ''''
      = Some (Inl (ScriptFailed PlainFailure MissingMainDecl), [CObj [], CObj []])
   \<and> run js_engine ''// function main'' [CObj [], CObj []] (VRef 1) ''''
      = MainUndefined [CObj [], CObj []]
   \<and> executeScript plain_host js_engine [CObj []] (VRef 0) ''// function main'' ''''
      = Some (Inl (ScriptFailed PlainFailure MainNotFunction), [CObj [], CObj []])"
  by code_simp

section \<open>Serialization and the store\<close>

lemma to_json_step_extends:
  assumes "writes_nothing hst" and "call_heap (to_json_step hst h key v) = Some h'"
  shows "\<exists>ext. h' = h @ ext"
proof (cases "\<exists>s. v = VDate s")
  case True
  with assms(2) show ?thesis
    by (auto simp: to_json_step_def)
next
  case False
  show ?thesis
  proof (cases "toJSON_method h v")
    case None
    with False assms(2) have "h' = h"
      by (cases v) (simp_all add: to_json_step_def)
    then show ?thesis
      by simp
  next
    case (Some f)
    with False assms(2) have "call_heap (call_toJSON hst f h v key) = Some h'"
      by (cases v) (simp_all add: to_json_step_def)
    with assms(1) show ?thesis
      unfolding writes_nothing_def by blast
  qed
qed

lemma ser_extends:
  assumes w: "writes_nothing hst"
  shows "\<forall>h'. ser_heap (ser_value hst n st v h) = Some h' \<longrightarrow> (\<exists>ext. h' = h @ ext)"
    and "\<forall>h'. ser_heap (ser_members hst m st a ks h) = Some h' \<longrightarrow> (\<exists>ext. h' = h @ ext)"
    and "\<forall>h'. ser_heap (ser_elements hst m st a es h) = Some h' \<longrightarrow> (\<exists>ext. h' = h @ ext)"
  using w
proof (induction hst n st v h and hst m st a ks h and hst m st a es h
    rule: ser_value_ser_members_ser_elements.induct)
  case (9 hst m st a h)
  show ?case
  proof (intro allI impI)
    fix h'
    assume r: "ser_heap (ser_value hst (Suc m) st (VRef a) h) = Some h'"
    show "\<exists>ext. h' = h @ ext"
    proof (cases "a \<in> set st")
      case True
      with r show ?thesis by simp
    next
      case False
      show ?thesis
      proof (cases "cell_at h a")
        case (CObj fs)
        with r False have "ser_heap (ser_members hst m (a # st) a (map fst fs) h) = Some h'"
          by (simp split: ser_outcome.splits)
        with 9(1)[OF False CObj 9(3)] show ?thesis
          by blast
      next
        case (CArr xs)
        with r False have "ser_heap (ser_elements hst m (a # st) a [0..<length xs] h) = Some h'"
          by (simp split: ser_outcome.splits)
        with 9(2)[OF False CArr 9(3)] show ?thesis
          by blast
      qed
    qed
  qed
next
  case (11 hst m st a k ks h)
  show ?case
  proof (intro allI impI)
    fix h'
    assume r: "ser_heap (ser_members hst m st a (k # ks) h) = Some h'"
    let ?step = "to_json_step hst h (Name k) (get_prop h (VRef a) k)"
    show "\<exists>ext. h' = h @ ext"
    proof (cases ?step)
      case NeverReturns
      with r show ?thesis by simp
    next
      case (Threw t h0)
      with r have "h' = h0" by simp
      with to_json_step_extends[OF 11(3), of h "Name k" "get_prop h (VRef a) k" h0] Threw
      show ?thesis by simp
    next
      case (Returned v h0)
      with to_json_step_extends[OF 11(3), of h "Name k" "get_prop h (VRef a) k" h0]
      obtain e0 where e0: "h0 = h @ e0"
        by auto
      show ?thesis
      proof (cases "ser_value hst m st v h0")
        case SerNever
        with r Returned show ?thesis by simp
      next
        case (SerThrew t h1)
        with r Returned have "h' = h1" by simp
        with 11(1)[OF Returned 11(3)] SerThrew e0 show ?thesis
          by auto
      next
        case (SerDone j h1)
        with 11(1)[OF Returned 11(3)] obtain e1 where e1: "h1 = h0 @ e1"
          by auto
        from r Returned SerDone have "ser_heap (ser_members hst m st a ks h1) = Some h'"
          by (simp split: ser_outcome.splits)
        with 11(2)[OF Returned SerDone 11(3)] obtain e2 where "h' = h1 @ e2"
          by auto
        with e0 e1 show ?thesis
          by simp
      qed
    qed
  qed
next
  case (13 hst m st a i "is" h)
  show ?case
  proof (intro allI impI)
    fix h'
    assume r: "ser_heap (ser_elements hst m st a (i # is) h) = Some h'"
    let ?step = "to_json_step hst h (Index i) (get_element h a i)"
    show "\<exists>ext. h' = h @ ext"
    proof (cases ?step)
      case NeverReturns
      with r show ?thesis by simp
    next
      case (Threw t h0)
      with r have "h' = h0" by simp
      with to_json_step_extends[OF 13(3), of h "Index i" "get_element h a i" h0] Threw
      show ?thesis by simp
    next
      case (Returned v h0)
      with to_json_step_extends[OF 13(3), of h "Index i" "get_element h a i" h0]
      obtain e0 where e0: "h0 = h @ e0"
        by auto
      show ?thesis
      proof (cases "ser_value hst m st v h0")
        case SerNever
        with r Returned show ?thesis by simp
      next
        case (SerThrew t h1)
        with r Returned have "h' = h1" by simp
        with 13(1)[OF Returned 13(3)] SerThrew e0 show ?thesis
          by auto
      next
        case (SerDone j h1)
        with 13(1)[OF Returned 13(3)] obtain e1 where e1: "h1 = h0 @ e1"
          by auto
        from r Returned SerDone have "ser_heap (ser_elements hst m st a is h1) = Some h'"
          by (simp split: ser_outcome.splits)
        with 13(2)[OF Returned SerDone 13(3)] obtain e2 where "h' = h1 @ e2"
          by auto
        with e0 e1 show ?thesis
          by simp
      qed
    qed
  qed
qed simp_all

lemma stringify_extends:
  assumes "writes_nothing hst" and "ser_heap (stringify hst config h) = Some h'"
  shows "\<exists>ext. h' = h @ ext"
proof (cases "to_json_step hst h (Name []) config")
  case NeverReturns
  with assms(2) show ?thesis
    by (simp add: stringify_def ser_property_def)
next
  case (Threw t h0)
  with assms(2) have "h' = h0"
    by (simp add: stringify_def ser_property_def)
  with to_json_step_extends[OF assms(1), of h "Name []" config h0] Threw show ?thesis
    by simp
next
  case (Returned v h0)
  with to_json_step_extends[OF assms(1), of h "Name []" config h0]
  obtain e0 where e0: "h0 = h @ e0"
    by auto
  from assms(2) Returned have "ser_heap (ser_value hst (stack_limit hst) [] v h0) = Some h'"
    by (simp add: stringify_def ser_property_def)
  with ser_extends(1)[OF assms(1)] obtain e1 where "h' = h0 @ e1"
    by blast
  with e0 show ?thesis
    by simp
qed

lemma build_grows:
  "\<forall>v h'. build j h = (v, h') \<longrightarrow> (\<exists>ext. h' = h @ ext)"
  "\<forall>vs h'. build_list js h = (vs, h') \<longrightarrow> (\<exists>ext. h' = h @ ext)"
  "\<forall>fs h'. build_members ms h = (fs, h') \<longrightarrow> (\<exists>ext. h' = h @ ext)"
proof (induction j h and js h and ms h rule: build_build_list_build_members.induct)
  case (5 js h)
  then show ?case by (auto split: prod.splits)
next
  case (6 ms h)
  then show ?case by (auto split: prod.splits)
next
  case (8 j js h)
  then show ?case by (fastforce split: prod.splits)
next
  case (10 k j ms h)
  then show ?case by (fastforce split: prod.splits)
qed auto

lemma region_closedD:
  "region_closed n h \<Longrightarrow> n \<le> a \<Longrightarrow> a < length h \<Longrightarrow> VRef b \<in> set (cell_values (h ! a))
     \<Longrightarrow> n \<le> b \<and> b < length h"
  unfolding region_closed_def by blast

lemma region_closed_snoc:
  assumes "region_closed n h" and "n \<le> length h"
    and "\<forall>b. VRef b \<in> set (cell_values c) \<longrightarrow> n \<le> b \<and> b < length h"
  shows "region_closed n (h @ [c])"
  unfolding region_closed_def
proof (intro allI impI)
  fix a b
  assume a: "n \<le> a \<and> a < length (h @ [c])" and b: "VRef b \<in> set (cell_values ((h @ [c]) ! a))"
  show "n \<le> b \<and> b < length (h @ [c])"
  proof (cases "a < length h")
    case True
    then have "(h @ [c]) ! a = h ! a"
      by (simp add: nth_append)
    with b have "VRef b \<in> set (cell_values (h ! a))"
      by simp
    from region_closedD[OF assms(1) _ True this] a show ?thesis
      by simp
  next
    case False
    with a have "a = length h"
      by simp
    then have "(h @ [c]) ! a = c"
      by simp
    with b have "VRef b \<in> set (cell_values c)"
      by simp
    with assms(3) have "n \<le> b \<and> b < length h"
      by blast
    then show ?thesis
      by simp
  qed
qed

lemma build_region:
  "\<forall>v h'. build j h = (v, h') \<longrightarrow> region_closed n h \<longrightarrow> n \<le> length h \<longrightarrow>
      region_closed n h' \<and> (\<forall>b. v = VRef b \<longrightarrow> n \<le> b \<and> b < length h')"
  "\<forall>vs h'. build_list js h = (vs, h') \<longrightarrow> region_closed n h \<longrightarrow> n \<le> length h \<longrightarrow>
      region_closed n h' \<and> (\<forall>b. VRef b \<in> set vs \<longrightarrow> n \<le> b \<and> b < length h')"
  "\<forall>fs h'. build_members ms h = (fs, h') \<longrightarrow> region_closed n h \<longrightarrow> n \<le> length h \<longrightarrow>
      region_closed n h' \<and> (\<forall>b. VRef b \<in> set (map snd fs) \<longrightarrow> n \<le> b \<and> b < length h')"
proof (induction j h and js h and ms h rule: build_build_list_build_members.induct)
  case (5 js h)
  show ?case
  proof (intro allI impI)
    fix v h'
    assume b: "build (JArr js) h = (v, h')" and r: "region_closed n h" and n: "n \<le> length h"
    obtain vs h1 where bl: "build_list js h = (vs, h1)"
      by (cases "build_list js h")
    from build_grows(2) bl have len: "length h \<le> length h1"
      by fastforce
    from 5 bl r n have ih: "region_closed n h1" "\<forall>b. VRef b \<in> set vs \<longrightarrow> n \<le> b \<and> b < length h1"
      by blast+
    from b bl have v: "v = VRef (length h1)" and h': "h' = h1 @ [CArr vs]"
      by auto
    have "region_closed n h'"
      unfolding h' using ih len n by (intro region_closed_snoc) auto
    then show "region_closed n h' \<and> (\<forall>b. v = VRef b \<longrightarrow> n \<le> b \<and> b < length h')"
      using v h' len n by auto
  qed
next
  case (6 ms h)
  show ?case
  proof (intro allI impI)
    fix v h'
    assume b: "build (JObj ms) h = (v, h')" and r: "region_closed n h" and n: "n \<le> length h"
    obtain fs h1 where bl: "build_members ms h = (fs, h1)"
      by (cases "build_members ms h")
    from build_grows(3) bl have len: "length h \<le> length h1"
      by fastforce
    from 6 bl r n have ih: "region_closed n h1"
      "\<forall>b. VRef b \<in> set (map snd fs) \<longrightarrow> n \<le> b \<and> b < length h1"
      by blast+
    from b bl have v: "v = VRef (length h1)" and h': "h' = h1 @ [CObj fs]"
      by auto
    have "region_closed n h'"
      unfolding h' using ih len n by (intro region_closed_snoc) auto
    then show "region_closed n h' \<and> (\<forall>b. v = VRef b \<longrightarrow> n \<le> b \<and> b < length h')"
      using v h' len n by auto
  qed
next
  case (8 j js h)
  show ?case
  proof (intro allI impI)
    fix vs h'
    assume b: "build_list (j # js) h = (vs, h')" and r: "region_closed n h" and n: "n \<le> length h"
    obtain v h1 where b1: "build j h = (v, h1)"
      by (cases "build j h")
    obtain ws h2 where b2: "build_list js h1 = (ws, h2)"
      by (cases "build_list js h1")
    from build_grows(1) b1 have l1: "length h \<le> length h1"
      by fastforce
    from build_grows(2) b2 have l2: "length h1 \<le> length h2"
      by fastforce
    from 8(1) b1 r n have i1: "region_closed n h1" "\<forall>b. v = VRef b \<longrightarrow> n \<le> b \<and> b < length h1"
      by blast+
    from 8(2)[OF b1[symmetric]] b2 i1(1) n l1
    have i2: "region_closed n h2" "\<forall>b. VRef b \<in> set ws \<longrightarrow> n \<le> b \<and> b < length h2"
      by (meson le_trans)+
    from b b1 b2 have "vs = v # ws" "h' = h2"
      by auto
    with i1 i2 l2 show "region_closed n h' \<and> (\<forall>b. VRef b \<in> set vs \<longrightarrow> n \<le> b \<and> b < length h')"
      by auto
  qed
next
  case (10 k j ms h)
  show ?case
  proof (intro allI impI)
    fix fs h'
    assume b: "build_members ((k, j) # ms) h = (fs, h')" and r: "region_closed n h" and n: "n \<le> length h"
    obtain v h1 where b1: "build j h = (v, h1)"
      by (cases "build j h")
    obtain ws h2 where b2: "build_members ms h1 = (ws, h2)"
      by (cases "build_members ms h1")
    from build_grows(1) b1 have l1: "length h \<le> length h1"
      by fastforce
    from build_grows(3) b2 have l2: "length h1 \<le> length h2"
      by fastforce
    from 10(1) b1 r n have i1: "region_closed n h1" "\<forall>b. v = VRef b \<longrightarrow> n \<le> b \<and> b < length h1"
      by blast+
    from 10(2)[OF b1[symmetric]] b2 i1(1) n l1
    have i2: "region_closed n h2" "\<forall>b. VRef b \<in> set (map snd ws) \<longrightarrow> n \<le> b \<and> b < length h2"
      by (meson le_trans)+
    from b b1 b2 have "fs = (k, v) # ws" "h' = h2"
      by auto
    with i1 i2 l2 show "region_closed n h' \<and> (\<forall>b. VRef b \<in> set (map snd fs) \<longrightarrow> n \<le> b \<and> b < length h')"
      by auto
  qed
qed auto

lemma reachable_in_region:
  assumes "reachable h v a" and "region_closed n h" and "\<forall>r. v = VRef r \<longrightarrow> n \<le> r"
  shows "n \<le> a"
  using assms
proof (induction rule: reachable.induct)
  case (reach_root a)
  then show ?case by simp
next
  case (reach_step v a b)
  then have "n \<le> a"
    by simp
  moreover from reach_step.hyps(1) have "a < length h"
    by (cases rule: reachable.cases) simp_all
  ultimately show ?case
    using region_closedD[OF reach_step.prems(1) _ _ reach_step.hyps(2)] by simp
qed

lemma region_closed_top: "region_closed (length h) h"
  by (simp add: region_closed_def)

lemma represents_mono:
  "represents h v j \<longrightarrow> represents (h @ ext) v j"
  "represents_list h vs js \<longrightarrow> represents_list (h @ ext) vs js"
  "represents_members h fs ms \<longrightarrow> represents_members (h @ ext) fs ms"
proof (induction h v j and h vs js and h fs ms rule: represents_represents_list_represents_members.induct)
  case (5 h v js)
  show ?case
  proof
    assume r: "represents h v (JArr js)"
    then obtain a xs where v: "v = VRef a" and a: "a < length h" and c: "h ! a = CArr xs"
      and l: "represents_list h xs js"
      by (auto split: hval.splits cell.splits)
    from 5[OF v c] l have "represents_list (h @ ext) xs js"
      by blast
    with v a c show "represents (h @ ext) v (JArr js)"
      by (simp add: nth_append)
  qed
next
  case (6 h v ms)
  show ?case
  proof
    assume r: "represents h v (JObj ms)"
    then obtain a fs where v: "v = VRef a" and a: "a < length h" and c: "h ! a = CObj fs"
      and l: "represents_members h fs ms"
      by (auto split: hval.splits cell.splits)
    from 6[OF v c] l have "represents_members (h @ ext) fs ms"
      by blast
    with v a c show "represents (h @ ext) v (JObj ms)"
      by (simp add: nth_append)
  qed
next
  case (8 h vs j js)
  then show ?case
    by (cases vs) auto
next
  case (10 h fs k j ms)
  then show ?case
    by (cases fs) auto
qed simp_all

lemma build_represents:
  "\<forall>v h'. build j h = (v, h') \<longrightarrow> represents h' v j"
  "\<forall>vs h'. build_list js h = (vs, h') \<longrightarrow> represents_list h' vs js"
  "\<forall>fs h'. build_members ms h = (fs, h') \<longrightarrow> represents_members h' fs ms"
proof (induction j h and js h and ms h rule: build_build_list_build_members.induct)
  case (5 js h)
  show ?case
  proof (intro allI impI)
    fix v h'
    assume b: "build (JArr js) h = (v, h')"
    obtain vs h1 where bl: "build_list js h = (vs, h1)"
      by (cases "build_list js h")
    from b bl have v: "v = VRef (length h1)" and h': "h' = h1 @ [CArr vs]"
      by auto
    from 5 bl have "represents_list h1 vs js"
      by blast
    with represents_mono(2) have "represents_list (h1 @ [CArr vs]) vs js"
      by blast
    then show "represents h' v (JArr js)"
      by (simp add: v h')
  qed
next
  case (6 ms h)
  show ?case
  proof (intro allI impI)
    fix v h'
    assume b: "build (JObj ms) h = (v, h')"
    obtain fs h1 where bl: "build_members ms h = (fs, h1)"
      by (cases "build_members ms h")
    from b bl have v: "v = VRef (length h1)" and h': "h' = h1 @ [CObj fs]"
      by auto
    from 6 bl have "represents_members h1 fs ms"
      by blast
    with represents_mono(3) have "represents_members (h1 @ [CObj fs]) fs ms"
      by blast
    then show "represents h' v (JObj ms)"
      by (simp add: v h')
  qed
next
  case (8 j js h)
  show ?case
  proof (intro allI impI)
    fix vs h'
    assume b: "build_list (j # js) h = (vs, h')"
    obtain v h1 where b1: "build j h = (v, h1)"
      by (cases "build j h")
    obtain ws h2 where b2: "build_list js h1 = (ws, h2)"
      by (cases "build_list js h1")
    from build_grows(2) b2 obtain e where e: "h2 = h1 @ e"
      by fastforce
    from b b1 b2 have vs: "vs = v # ws" and h': "h' = h2"
      by auto
    from 8(1) b1 have "represents h1 v j"
      by blast
    with represents_mono(1) e have "represents h2 v j"
      by blast
    moreover from 8(2)[OF b1[symmetric]] b2 have "represents_list h2 ws js"
      by blast
    ultimately show "represents_list h' vs (j # js)"
      by (simp add: vs h')
  qed
next
  case (10 k j ms h)
  show ?case
  proof (intro allI impI)
    fix fs h'
    assume b: "build_members ((k, j) # ms) h = (fs, h')"
    obtain v h1 where b1: "build j h = (v, h1)"
      by (cases "build j h")
    obtain ws h2 where b2: "build_members ms h1 = (ws, h2)"
      by (cases "build_members ms h1")
    from build_grows(3) b2 obtain e where e: "h2 = h1 @ e"
      by fastforce
    from b b1 b2 have fs: "fs = (k, v) # ws" and h': "h' = h2"
      by auto
    from 10(1) b1 have "represents h1 v j"
      by blast
    with represents_mono(1) e have "represents h2 v j"
      by blast
    moreover from 10(2)[OF b1[symmetric]] b2 have "represents_members h2 ws ms"
      by blast
    ultimately show "represents_members h' fs ((k, j) # ms)"
      by (simp add: fs h')
  qed
qed simp_all

lemma represents_cases:
  "represents h v j \<Longrightarrow>
     (v = VNull \<and> j = JNull) \<or> (\<exists>b. v = VBool b \<and> j = JBool b)
     \<or> (\<exists>q. v = VNum (Fin q) \<and> j = JNum q) \<or> (\<exists>s. v = VStr s \<and> j = JStr s)
     \<or> (\<exists>a xs js. v = VRef a \<and> a < length h \<and> h ! a = CArr xs \<and> j = JArr js
            \<and> represents_list h xs js)
     \<or> (\<exists>a fs ms. v = VRef a \<and> a < length h \<and> h ! a = CObj fs \<and> j = JObj ms
            \<and> represents_members h fs ms)"
  by (cases j) (auto split: hval.splits cell.splits)

lemma represents_list_Cons:
  "represents_list h vs (j # js) \<Longrightarrow> \<exists>v vs'. vs = v # vs' \<and> represents h v j \<and> represents_list h vs' js"
  by (cases vs) auto

lemma represents_members_Cons:
  "represents_members h fs ((k, j) # ms) \<Longrightarrow>
     \<exists>v fs'. fs = (k, v) # fs' \<and> represents h v j \<and> represents_members h fs' ms"
  by (cases fs) auto

lemma represents_unique:
  "\<forall>j'. represents h v j \<longrightarrow> represents h v j' \<longrightarrow> j = j'"
  "\<forall>js'. represents_list h vs js \<longrightarrow> represents_list h vs js' \<longrightarrow> js = js'"
  "\<forall>ms'. represents_members h fs ms \<longrightarrow> represents_members h fs ms' \<longrightarrow> ms = ms'"
proof (induction h v j and h vs js and h fs ms rule: represents_represents_list_represents_members.induct)
  case (1 h v)
  show ?case
    by (intro allI impI) (drule represents_cases, drule represents_cases, auto)
next
  case (2 h v b)
  show ?case
    by (intro allI impI) (drule represents_cases, drule represents_cases, auto)
next
  case (3 h v q)
  show ?case
    by (intro allI impI) (drule represents_cases, drule represents_cases, auto)
next
  case (4 h v s)
  show ?case
    by (intro allI impI) (drule represents_cases, drule represents_cases, auto)
next
  case (5 h v js)
  show ?case
  proof (intro allI impI)
    fix j'
    assume r: "represents h v (JArr js)" and r': "represents h v j'"
    from represents_cases[OF r] obtain a xs where v: "v = VRef a" and c: "h ! a = CArr xs"
      and l: "represents_list h xs js"
      by auto
    from represents_cases[OF r'] v c obtain js' where j': "j' = JArr js'"
      and l': "represents_list h xs js'"
      by auto
    from 5[OF v c] l l' have "js = js'"
      by blast
    with j' show "JArr js = j'"
      by simp
  qed
next
  case (6 h v ms)
  show ?case
  proof (intro allI impI)
    fix j'
    assume r: "represents h v (JObj ms)" and r': "represents h v j'"
    from represents_cases[OF r] obtain a fs where v: "v = VRef a" and c: "h ! a = CObj fs"
      and l: "represents_members h fs ms"
      by auto
    from represents_cases[OF r'] v c obtain ms' where j': "j' = JObj ms'"
      and l': "represents_members h fs ms'"
      by auto
    from 6[OF v c] l l' have "ms = ms'"
      by blast
    with j' show "JObj ms = j'"
      by simp
  qed
next
  case (7 h vs)
  show ?case
  proof (intro allI impI)
    fix js'
    assume "represents_list h vs []" and r: "represents_list h vs js'"
    then have "vs = []"
      by simp
    with r show "[] = js'"
      by (cases js') auto
  qed
next
  case (8 h vs j js)
  show ?case
  proof (intro allI impI)
    fix js'
    assume r: "represents_list h vs (j # js)" and r': "represents_list h vs js'"
    from represents_list_Cons[OF r] obtain v vs' where vs: "vs = v # vs'"
      and a: "represents h v j" and b: "represents_list h vs' js"
      by blast
    from r' vs obtain j2 js2 where js': "js' = j2 # js2"
      by (cases js') auto
    with r' vs have a': "represents h v j2" and b': "represents_list h vs' js2"
      by auto
    from 8(1)[OF vs] a a' have "j = j2"
      by blast
    moreover from 8(2)[OF vs] b b' have "js = js2"
      by blast
    ultimately show "j # js = js'"
      by (simp add: js')
  qed
next
  case (9 h fs)
  show ?case
  proof (intro allI impI)
    fix ms'
    assume "represents_members h fs []" and r: "represents_members h fs ms'"
    then have "fs = []"
      by simp
    with r show "[] = ms'"
      by (cases ms') auto
  qed
next
  case (10 h fs k j ms)
  show ?case
  proof (intro allI impI)
    fix ms'
    assume r: "represents_members h fs ((k, j) # ms)" and r': "represents_members h fs ms'"
    from represents_members_Cons[OF r] obtain v fs' where fs: "fs = (k, v) # fs'"
      and a: "represents h v j" and b: "represents_members h fs' ms"
      by blast
    from r' fs obtain k2 j2 ms2 where ms': "ms' = (k2, j2) # ms2"
      by (cases ms') auto
    with r' fs have k: "k2 = k" and a': "represents h v j2" and b': "represents_members h fs' ms2"
      by auto
    from 10(1)[OF fs refl] a a' have "j = j2"
      by blast
    moreover from 10(2)[OF fs refl] b b' have "ms = ms2"
      by blast
    ultimately show "(k, j) # ms = ms'"
      by (simp add: ms' k)
  qed
qed

lemma represents_members_keys: "represents_members h fs ms \<Longrightarrow> map fst fs = map fst ms"
proof (induction ms arbitrary: fs)
  case Nil
  then show ?case by simp
next
  case (Cons m ms)
  obtain k j where m: "m = (k, j)"
    by (cases m)
  from Cons.prems represents_members_Cons[of h fs k j ms]
  obtain v fs' where "fs = (k, v) # fs'" "represents_members h fs' ms"
    unfolding m by blast
  with Cons.IH[of fs'] show ?case
    by (simp add: m)
qed

lemma represents_members_value:
  "represents_members h fs ms \<Longrightarrow> (k, v) \<in> set fs \<Longrightarrow> \<exists>j. represents h v j"
proof (induction ms arbitrary: fs)
  case Nil
  then show ?case by simp
next
  case (Cons m ms)
  obtain k' j where m: "m = (k', j)"
    by (cases m)
  from Cons.prems(1) represents_members_Cons[of h fs k' j ms]
  obtain v' fs' where fs: "fs = (k', v') # fs'" and a: "represents h v' j"
    and b: "represents_members h fs' ms"
    unfolding m by blast
  from Cons.prems(2) fs have "(k, v) = (k', v') \<or> (k, v) \<in> set fs'"
    by simp
  then show ?case
  proof
    assume "(k, v) = (k', v')"
    with a show ?thesis by blast
  next
    assume "(k, v) \<in> set fs'"
    from Cons.IH[OF b this] show ?thesis .
  qed
qed

lemma represents_not_function:
  "represents h v j \<Longrightarrow> (\<forall>f. v \<noteq> VFun f) \<and> v \<noteq> VUndef \<and> (\<forall>s. v \<noteq> VDate s)"
  by (drule represents_cases) auto

lemma toJSON_method_represents:
  assumes "represents h v j"
  shows "toJSON_method h v = None"
proof -
  have "\<forall>f. get_prop h v ''toJSON'' \<noteq> VFun f"
  proof (intro allI notI)
    fix f
    assume g: "get_prop h v ''toJSON'' = VFun f"
    then obtain a fs where v: "v = VRef a" and a: "a < length h" and c: "h ! a = CObj fs"
      and m: "map_of fs ''toJSON'' = Some (VFun f)"
      by (cases v) (auto split: if_splits cell.splits option.splits)
    from represents_cases[OF assms] v c obtain ms where "represents_members h fs ms"
      by auto
    from represents_members_value[OF this map_of_SomeD[OF m]] represents_not_function
    show False
      by blast
  qed
  then show ?thesis
    unfolding toJSON_method_def by (cases "get_prop h v ''toJSON''") simp_all
qed

lemma to_json_step_represents:
  assumes "represents h v j"
  shows "to_json_step hst h key v = Returned v h"
  using toJSON_method_represents[OF assms] represents_not_function[OF assms]
  by (cases v) (simp_all add: to_json_step_def)

lemma get_prop_member:
  assumes "a < length h" and "h ! a = CObj fs" and "distinct (map fst fs)" and "(k, v) \<in> set fs"
  shows "get_prop h (VRef a) k = v"
  using assms by simp

lemma ser_represents:
  "\<forall>j. represents h v j \<longrightarrow> unique_keys j \<longrightarrow> nesting j \<le> n \<longrightarrow>
       (\<forall>b \<in> set st. \<forall>j'. represents h (VRef b) j' \<longrightarrow> nesting j < nesting j') \<longrightarrow>
       ser_value hst n st v h = SerDone (Some j) h"
  "\<forall>pre rest ms. a < length h \<longrightarrow> h ! a = CObj (pre @ rest) \<longrightarrow> distinct (map fst (pre @ rest)) \<longrightarrow>
       ks = map fst rest \<longrightarrow> represents_members h rest ms \<longrightarrow> unique_keys_members ms \<longrightarrow>
       nesting_members ms \<le> m \<longrightarrow>
       (\<forall>b \<in> set st. \<forall>j'. represents h (VRef b) j' \<longrightarrow> nesting_members ms < nesting j') \<longrightarrow>
       ser_members hst m st a ks h = SerDone ms h"
  "\<forall>xs i js. a < length h \<longrightarrow> h ! a = CArr xs \<longrightarrow> es = [i..<length xs] \<longrightarrow> i \<le> length xs \<longrightarrow>
       represents_list h (drop i xs) js \<longrightarrow> unique_keys_list js \<longrightarrow> nesting_list js \<le> m \<longrightarrow>
       (\<forall>b \<in> set st. \<forall>j'. represents h (VRef b) j' \<longrightarrow> nesting_list js < nesting j') \<longrightarrow>
       ser_elements hst m st a es h = SerDone js h"
proof (induction hst n st v h and hst m st a ks h and hst m st a es h
    rule: ser_value_ser_members_ser_elements.induct)
  case (1 hst n st h)
  show ?case
    by (intro allI impI) (drule represents_cases, auto)
next
  case (2 hst n st h)
  show ?case
    by (intro allI impI) (drule represents_cases, auto)
next
  case (3 hst n st b h)
  show ?case
    by (intro allI impI) (drule represents_cases, auto)
next
  case (4 hst n st x h)
  show ?case
    by (intro allI impI) (drule represents_cases, auto)
next
  case (5 hst n st s h)
  show ?case
    by (intro allI impI) (drule represents_cases, auto)
next
  case (6 hst n st f h)
  show ?case
    by (intro allI impI) (drule represents_cases, auto)
next
  case (7 hst n st s h)
  show ?case
    by (intro allI impI) (drule represents_cases, auto)
next
  case (8 hst st a h)
  show ?case
    by (intro allI impI) (drule represents_cases, auto)
next
  case (9 hst m st a h)
  show ?case
  proof (intro allI impI)
    fix j
    assume r: "represents h (VRef a) j" and u: "unique_keys j" and n: "nesting j \<le> Suc m"
      and inv: "\<forall>b \<in> set st. \<forall>j'. represents h (VRef b) j' \<longrightarrow> nesting j < nesting j'"
    have notin: "a \<notin> set st"
    proof
      assume "a \<in> set st"
      with inv r have "nesting j < nesting j"
        by blast
      then show False
        by simp
    qed
    from represents_cases[OF r] have a: "a < length h"
      by auto
    then have cell: "cell_at h a = h ! a"
      by (simp add: cell_at_def)
    from represents_cases[OF r]
    consider (arr) xs js where "h ! a = CArr xs" "j = JArr js" "represents_list h xs js"
      | (obj) fs ms where "h ! a = CObj fs" "j = JObj ms" "represents_members h fs ms"
      by auto
    then show "ser_value hst (Suc m) st (VRef a) h = SerDone (Some j) h"
    proof cases
      case arr
      have c: "cell_at h a = CArr xs"
        using cell arr(1) by simp
      have inv': "\<forall>b \<in> set (a # st). \<forall>j'. represents h (VRef b) j' \<longrightarrow> nesting_list js < nesting j'"
      proof (intro ballI allI impI)
        fix b j'
        assume b: "b \<in> set (a # st)" and r': "represents h (VRef b) j'"
        show "nesting_list js < nesting j'"
        proof (cases "b = a")
          case True
          with r r' represents_unique(1)[of h "VRef a" j] have "j' = j"
            by blast
          then show ?thesis
            by (simp add: arr(2))
        next
          case False
          with b inv r' have "nesting j < nesting j'"
            by auto
          then show ?thesis
            by (simp add: arr(2))
        qed
      qed
      from 9(2)[OF notin c] a arr u n inv'
      have "ser_elements hst m (a # st) a [0..<length xs] h = SerDone js h"
        by (simp del: upt.simps)
      with notin c show ?thesis
        by (simp add: arr(2) del: upt.simps)
    next
      case obj
      have c: "cell_at h a = CObj fs"
        using cell obj(1) by simp
      have inv': "\<forall>b \<in> set (a # st). \<forall>j'. represents h (VRef b) j' \<longrightarrow> nesting_members ms < nesting j'"
      proof (intro ballI allI impI)
        fix b j'
        assume b: "b \<in> set (a # st)" and r': "represents h (VRef b) j'"
        show "nesting_members ms < nesting j'"
        proof (cases "b = a")
          case True
          with r r' represents_unique(1)[of h "VRef a" j] have "j' = j"
            by blast
          then show ?thesis
            by (simp add: obj(2))
        next
          case False
          with b inv r' have "nesting j < nesting j'"
            by auto
          then show ?thesis
            by (simp add: obj(2))
        qed
      qed
      have d: "distinct (map fst ([] @ fs))"
        using u obj(2) represents_members_keys[OF obj(3)] by simp
      have hc: "h ! a = CObj ([] @ fs)"
        using obj(1) by simp
      from u obj(2) have um: "unique_keys_members ms"
        by simp
      from n obj(2) have nm: "nesting_members ms \<le> m"
        by simp
      from 9(1)[OF notin c] a hc d obj(3) um nm inv'
      have "ser_members hst m (a # st) a (map fst fs) h = SerDone ms h"
        by blast
      with notin c show ?thesis
        by (simp add: obj(2))
    qed
  qed
next
  case (10 hst m st a h)
  show ?case
  proof (intro allI impI)
    fix pre rest ms
    assume "[] = map fst rest" and r: "represents_members h rest ms"
    then have "rest = []"
      by simp
    with r have "ms = []"
      by (cases ms) auto
    then show "ser_members hst m st a [] h = SerDone ms h"
      by simp
  qed
next
  case (11 hst m st a k ks h)
  show ?case
  proof (intro allI impI)
    fix pre rest ms
    assume a: "a < length h" and c: "h ! a = CObj (pre @ rest)"
      and d: "distinct (map fst (pre @ rest))" and ks: "k # ks = map fst rest"
      and r: "represents_members h rest ms" and u: "unique_keys_members ms"
      and n: "nesting_members ms \<le> m"
      and inv: "\<forall>b \<in> set st. \<forall>j'. represents h (VRef b) j' \<longrightarrow> nesting_members ms < nesting j'"
    from ks obtain v rest' where rest: "rest = (k, v) # rest'" and ks': "ks = map fst rest'"
      by (cases rest) auto
    from r rest obtain j ms' where ms: "ms = (k, j) # ms'" and rv: "represents h v j"
      and rm: "represents_members h rest' ms'"
      by (cases ms) auto
    have g: "get_prop h (VRef a) k = v"
      using get_prop_member[OF a c d, of k v] rest by simp
    have step: "to_json_step hst h (Name k) (get_prop h (VRef a) k) = Returned v h"
      unfolding g by (rule to_json_step_represents[OF rv])
    have invj: "\<forall>b \<in> set st. \<forall>j'. represents h (VRef b) j' \<longrightarrow> nesting j < nesting j'"
      using inv ms by fastforce
    from u ms have uj: "unique_keys j" and um: "unique_keys_members ms'"
      by simp_all
    from n ms have nj: "nesting j \<le> m" and nm: "nesting_members ms' \<le> m"
      by simp_all
    from 11(1)[OF step] rv uj nj invj have sv: "ser_value hst m st v h = SerDone (Some j) h"
      by blast
    have c': "h ! a = CObj ((pre @ [(k, v)]) @ rest')"
      using c rest by simp
    have d': "distinct (map fst ((pre @ [(k, v)]) @ rest'))"
      using d rest by simp
    have inv': "\<forall>b \<in> set st. \<forall>j'. represents h (VRef b) j' \<longrightarrow> nesting_members ms' < nesting j'"
      using inv ms by fastforce
    from 11(2)[OF step sv] a c' d' ks' rm um nm inv'
    have "ser_members hst m st a ks h = SerDone ms' h"
      by blast
    with step sv show "ser_members hst m st a (k # ks) h = SerDone ms h"
      by (simp add: ms)
  qed
next
  case (12 hst m st a h)
  show ?case
  proof (intro allI impI)
    fix xs i js
    assume e: "[] = [i..<length xs]" and "i \<le> length xs" and r: "represents_list h (drop i xs) js"
    from e[symmetric] have "length xs \<le> i"
      by auto
    then have "drop i xs = []"
      by simp
    with r have "js = []"
      by (cases js) auto
    then show "ser_elements hst m st a [] h = SerDone js h"
      by simp
  qed
next
  case (13 hst m st a e es h)
  show ?case
  proof (intro allI impI)
    fix xs i js
    assume a: "a < length h" and c: "h ! a = CArr xs" and es: "e # es = [i..<length xs]"
      and i: "i \<le> length xs" and r: "represents_list h (drop i xs) js"
      and u: "unique_keys_list js" and n: "nesting_list js \<le> m"
      and inv: "\<forall>b \<in> set st. \<forall>j'. represents h (VRef b) j' \<longrightarrow> nesting_list js < nesting j'"
    from es[symmetric] have il: "i < length xs" and e: "e = i" and es': "es = [Suc i..<length xs]"
      by (auto simp: upt_eq_Cons_conv)
    from il have dr: "drop i xs = xs ! i # drop (Suc i) xs"
      by (simp add: Cons_nth_drop_Suc)
    from r dr obtain j js' where js: "js = j # js'" and rv: "represents h (xs ! i) j"
      and rl: "represents_list h (drop (Suc i) xs) js'"
      by (cases js) auto
    have g: "get_element h a e = xs ! i"
      using a c il e by (simp add: get_element_def cell_at_def)
    have step: "to_json_step hst h (Index e) (get_element h a e) = Returned (xs ! i) h"
      unfolding g by (rule to_json_step_represents[OF rv])
    have invj: "\<forall>b \<in> set st. \<forall>j'. represents h (VRef b) j' \<longrightarrow> nesting j < nesting j'"
      using inv js by fastforce
    from u js have uj: "unique_keys j" and ul: "unique_keys_list js'"
      by simp_all
    from n js have nj: "nesting j \<le> m" and nl: "nesting_list js' \<le> m"
      by simp_all
    from 13(1)[OF step] rv uj nj invj have sv: "ser_value hst m st (xs ! i) h = SerDone (Some j) h"
      by blast
    have inv': "\<forall>b \<in> set st. \<forall>j'. represents h (VRef b) j' \<longrightarrow> nesting_list js' < nesting j'"
      using inv js by fastforce
    from il have i': "Suc i \<le> length xs"
      by simp
    from 13(2)[OF step sv] a c es' i' rl ul nl inv'
    have "ser_elements hst m st a es h = SerDone js' h"
      by blast
    with step sv show "ser_elements hst m st a (e # es) h = SerDone js h"
      by (simp add: js)
  qed
qed

lemma stringify_represents:
  assumes "represents h config j" and "unique_keys j" and "nesting j \<le> stack_limit hst"
  shows "stringify hst config h = SerDone (Some j) h"
proof -
  from ser_represents(1)[of h config "stack_limit hst" "[]" hst] assms
  have "ser_value hst (stack_limit hst) [] config h = SerDone (Some j) h"
    by simp
  with to_json_step_represents[OF assms(1)] show ?thesis
    by (simp add: stringify_def ser_property_def)
qed

section \<open>The deep copy and the store of the caller\<close>

lemma deep_copy_json:
  assumes "deep_copy hst h config = Some (Inr copy, h1)"
  shows "\<exists>j h0. stringify hst config h = SerDone (Some j) h0 \<and> build j h0 = (copy, h1)
           \<and> represents h1 copy j"
proof -
  from assms obtain j h0 where s: "stringify hst config h = SerDone (Some j) h0"
    and b: "build j h0 = (copy, h1)"
    by (auto simp: deep_copy_def split: ser_outcome.splits option.splits prod.splits)
  from build_represents(1) b have "represents h1 copy j"
    by blast
  with s b show ?thesis
    by blast
qed

lemma deep_copy_extends:
  assumes "writes_nothing hst" and "deep_copy hst h config = Some (r, h1)"
  shows "\<exists>ext. h1 = h @ ext"
proof (cases "stringify hst config h")
  case SerNever
  with assms(2) show ?thesis
    by (simp add: deep_copy_def)
next
  case (SerThrew t h0)
  with assms(2) have "h1 = h0"
    by (simp add: deep_copy_def)
  with stringify_extends[OF assms(1), of config h h0] SerThrew show ?thesis
    by simp
next
  case (SerDone x h0)
  with stringify_extends[OF assms(1), of config h h0] obtain e0 where e0: "h0 = h @ e0"
    by auto
  show ?thesis
  proof (cases x)
    case None
    with assms(2) SerDone have "h1 = h0"
      by (simp add: deep_copy_def)
    with e0 show ?thesis
      by simp
  next
    case (Some j)
    with assms(2) SerDone obtain v where "build j h0 = (v, h1)"
      by (auto simp: deep_copy_def split: prod.splits)
    with build_grows(1) obtain e1 where "h1 = h0 @ e1"
      by blast
    with e0 show ?thesis
      by simp
  qed
qed

lemma deep_copy_fresh:
  assumes "writes_nothing hst" and "deep_copy hst h config = Some (Inr copy, h1)"
    and "reachable h1 copy a"
  shows "length h \<le> a"
proof -
  from deep_copy_json[OF assms(2)] obtain j h0
    where s: "stringify hst config h = SerDone (Some j) h0" and b: "build j h0 = (copy, h1)"
    by blast
  from stringify_extends[OF assms(1), of config h h0] s have len: "length h \<le> length h0"
    by auto
  from build_region(1)[of j h0 "length h0"] b region_closed_top[of h0]
  have "region_closed (length h0) h1" "\<forall>b. copy = VRef b \<longrightarrow> length h0 \<le> b"
    by auto
  with assms(3) have "length h0 \<le> a"
    by (rule_tac reachable_in_region) auto
  with len show ?thesis
    by simp
qed

lemma deep_copy_represents:
  assumes "represents h config j" and "unique_keys j" and "nesting j \<le> stack_limit hst"
  shows "\<exists>copy h1. deep_copy hst h config = Some (Inr copy, h1) \<and> build j h = (copy, h1)
           \<and> represents h1 copy j"
proof -
  obtain copy h1 where b: "build j h = (copy, h1)"
    by (cases "build j h")
  from build_represents(1) b have "represents h1 copy j"
    by blast
  moreover from stringify_represents[OF assms] b
  have "deep_copy hst h config = Some (Inr copy, h1)"
    by (simp add: deep_copy_def)
  ultimately show ?thesis
    using b by blast
qed

lemma finish_final_heap: "finish outcome = Some (r, h') \<Longrightarrow> final_heap outcome = Some h'"
  by (cases outcome) (auto simp: finish_def split: option.splits)

lemma confined_run:
  assumes "confined eng" and "final_heap (run eng src h v name) = Some h'"
  shows "length h \<le> length h'" and "a < length h \<Longrightarrow> \<not> reachable h v a \<Longrightarrow> h' ! a = h ! a"
  using assms unfolding confined_def by blast+

lemma invoke_frame:
  assumes "confined eng" and "invoke eng h1 copy script name = Some (r, h')"
    and "\<forall>a. reachable h1 copy a \<longrightarrow> n \<le> a" and "n \<le> length h1"
  shows "length h1 \<le> length h' \<and> (\<forall>a < n. h' ! a = h1 ! a)"
proof (cases "compile eng script")
  case (Some m)
  with assms(2) show ?thesis
    by (simp add: invoke_def)
next
  case None
  with assms(2) have "finish (run eng script h1 copy name) = Some (r, h')"
    by (simp add: invoke_def)
  then have fh: "final_heap (run eng script h1 copy name) = Some h'"
    by (rule finish_final_heap)
  have "h' ! a = h1 ! a" if "a < n" for a
  proof -
    from that assms(3) have "\<not> reachable h1 copy a"
      by auto
    moreover from that assms(4) have "a < length h1"
      by simp
    ultimately show ?thesis
      using confined_run(2)[OF assms(1) fh] by blast
  qed
  with confined_run(1)[OF assms(1) fh] show ?thesis
    by blast
qed

lemma try_block_frame:
  assumes "confined eng" and "writes_nothing hst"
    and "try_block hst eng h config script name = Some (r, h')"
  shows "length h \<le> length h' \<and> (\<forall>a < length h. h' ! a = h ! a)"
proof -
  from assms(3) obtain c h1 where dc: "deep_copy hst h config = Some (c, h1)"
    by (cases "deep_copy hst h config") (auto simp: try_block_def)
  from deep_copy_extends[OF assms(2) dc] obtain ext where ext: "h1 = h @ ext"
    by blast
  then have pre: "length h \<le> length h1" "\<forall>a < length h. h1 ! a = h ! a"
    by (simp_all add: nth_append)
  show ?thesis
  proof (cases c)
    case (Inl t)
    with assms(3) dc pre show ?thesis
      by (simp add: try_block_def)
  next
    case (Inr copy)
    show ?thesis
    proof (cases "includes_str script ''function main''")
      case False
      with assms(3) dc Inr pre show ?thesis
        by (simp add: try_block_def)
    next
      case True
      with assms(3) dc Inr have inv: "invoke eng h1 copy script name = Some (r, h')"
        by (simp add: try_block_def)
      from dc Inr have "\<forall>a. reachable h1 copy a \<longrightarrow> length h \<le> a"
        using deep_copy_fresh[OF assms(2)] by blast
      from invoke_frame[OF assms(1) inv this pre(1)] pre show ?thesis
        by auto
    qed
  qed
qed

lemma executeScript_frame:
  assumes "confined eng" and "writes_nothing hst"
    and "executeScript hst eng h config script name = Some (r, h')"
  shows "length h \<le> length h' \<and> (\<forall>a < length h. h' ! a = h ! a)"
proof (cases "validateConfig h config False")
  case (Some e)
  with assms(3) show ?thesis
    by (simp add: executeScript_def)
next
  case None
  with assms(3) obtain r' where "try_block hst eng h config script name = Some (r', h')"
    by (auto simp: executeScript_def split: option.splits sum.splits prod.splits)
  from try_block_frame[OF assms(1,2) this] show ?thesis .
qed

lemma executeScript_runs_copy:
  assumes "executeScript hst eng h config script name = Some (r, h')"
    and "deep_copy hst h config = Some (Inr copy, h1)"
    and "validateConfig h config False = None" and "includes_str script ''function main''"
    and "compile eng script = None"
  shows "\<exists>t. finish (run eng script h1 copy name) = Some (t, h')
           \<and> r = (case t of Inl e \<Rightarrow> Inl (rethrow e) | Inr v \<Rightarrow> Inr v)"
  using assms
  by (auto simp: executeScript_def try_block_def invoke_def split: option.splits sum.splits prod.splits)

lemma plain_host_writes_nothing: "writes_nothing plain_host"
  by (simp add: writes_nothing_def plain_host_def)

lemma overwrite_engine_confined: "confined overwrite_engine"
  unfolding confined_def
proof (intro allI impI)
  fix src h v name h'
  assume fh: "final_heap (run overwrite_engine src h v name) = Some h'"
  show "length h \<le> length h' \<and> (\<forall>a<length h. \<not> reachable h v a \<longrightarrow> h' ! a = h ! a)"
  proof (cases v)
    case (VRef r)
    with fh have h': "h' = h[r := CObj [(''port'', VNum (Fin 1))]]"
      by (simp add: overwrite_engine_def)
    have "h' ! a = h ! a" if "a < length h" "\<not> reachable h v a" for a
    proof -
      from that VRef have "a \<noteq> r"
        using reach_root by blast
      then show ?thesis
        by (simp add: h')
    qed
    then show ?thesis
      by (simp add: h')
  qed (use fh in \<open>simp_all add: overwrite_engine_def\<close>)
qed

text \<open>
  Claim C1, as amended. Let the \<open>toJSON\<close> methods that the serialization runs write
  to no cell that exists, and let the engine run routines that change only what they
  reach from the object they are given. Then, whenever \<open>executeScript\<close> returns or
  fails, every cell of the caller's store is what it was before the call. A manifest
  with JSON content (primitives, arrays, objects with distinct keys, nested no deeper
  than the serialization can go) is copied: the copy has that same content. Whatever
  the manifest, the copy is built from the JSON value the manifest serializes to and
  has exactly that content, every cell reachable from it is new, and the routine is
  run on the copy, in the store the copy was made in.
\<close>

theorem caller_manifest_unchanged:
  assumes "confined eng" and "writes_nothing hst"
    and "executeScript hst eng h config script name = Some (r, h')"
  shows "length h \<le> length h' \<and> (\<forall>a < length h. h' ! a = h ! a)
     \<and> (\<forall>j. represents h config j \<and> unique_keys j \<and> nesting j \<le> stack_limit hst \<longrightarrow>
           (\<exists>copy h1. deep_copy hst h config = Some (Inr copy, h1) \<and> represents h1 copy j))
     \<and> (\<forall>copy h1. deep_copy hst h config = Some (Inr copy, h1) \<longrightarrow>
           (\<forall>a. reachable h1 copy a \<longrightarrow> length h \<le> a)
           \<and> (\<exists>j h0. stringify hst config h = SerDone (Some j) h0 \<and> build j h0 = (copy, h1)
                 \<and> represents h1 copy j)
           \<and> (validateConfig h config False = None \<and> includes_str script ''function main''
                \<and> compile eng script = None \<longrightarrow>
                (\<exists>t. finish (run eng script h1 copy name) = Some (t, h')
                   \<and> r = (case t of Inl e \<Rightarrow> Inl (rethrow e) | Inr v \<Rightarrow> Inr v))))"
proof (intro conjI allI impI)
  show "length h \<le> length h'"
    using executeScript_frame[OF assms] by blast
next
  fix a
  assume "a < length h"
  then show "h' ! a = h ! a"
    using executeScript_frame[OF assms] by blast
next
  fix j
  assume "represents h config j \<and> unique_keys j \<and> nesting j \<le> stack_limit hst"
  then show "\<exists>copy h1. deep_copy hst h config = Some (Inr copy, h1) \<and> represents h1 copy j"
    using deep_copy_represents[of h config j hst] by blast
next
  fix copy h1 a
  assume "deep_copy hst h config = Some (Inr copy, h1)" and "reachable h1 copy a"
  then show "length h \<le> a"
    using deep_copy_fresh[OF assms(2)] by blast
next
  fix copy h1
  assume "deep_copy hst h config = Some (Inr copy, h1)"
  then show "\<exists>j h0. stringify hst config h = SerDone (Some j) h0 \<and> build j h0 = (copy, h1)
                 \<and> represents h1 copy j"
    by (rule deep_copy_json)
next
  fix copy h1
  assume dc: "deep_copy hst h config = Some (Inr copy, h1)"
    and c: "validateConfig h config False = None \<and> includes_str script ''function main''
                \<and> compile eng script = None"
  from c have c1: "validateConfig h config False = None"
    and c2: "includes_str script ''function main''" and c3: "compile eng script = None"
    by simp_all
  show "\<exists>t. finish (run eng script h1 copy name) = Some (t, h')
                   \<and> r = (case t of Inl e \<Rightarrow> Inl (rethrow e) | Inr v \<Rightarrow> Inr v)"
    by (rule executeScript_runs_copy[OF assms(3) dc c1 c2 c3])
qed

text \<open>
  The theorem at a manifest with a mode and a list of rules and a routine that
  deletes both keys of the object it receives: the copy had the content of the
  manifest, the routine is run on the copy, the copy is overwritten, the cells of
  the caller are not.
\<close>

theorem caller_manifest_unchanged_witness:
  "confined overwrite_engine \<and> writes_nothing plain_host
   \<and> executeScript plain_host overwrite_engine
        [CObj [(''mode'', VStr ''rule''), (''rules'', VRef 1)], CArr [VStr ''MATCH,DIRECT'']] (VRef 0)
        ''function main(config) { delete config.mode; delete config.rules; config.port = 1; return config; }'' ''x''
      = Some (Inr (VRef 3),
          [CObj [(''mode'', VStr ''rule''), (''rules'', VRef 1)], CArr [VStr ''MATCH,DIRECT''],
           CArr [VStr ''MATCH,DIRECT''], CObj [(''port'', VNum (Fin 1))]])
   \<and> represents [CObj [(''mode'', VStr ''rule''), (''rules'', VRef 1)], CArr [VStr ''MATCH,DIRECT'']] (VRef 0)
        (JObj [(''mode'', JStr ''rule''), (''rules'', JArr [JStr ''MATCH,DIRECT''])])
   \<and> unique_keys (JObj [(''mode'', JStr ''rule''), (''rules'', JArr [JStr ''MATCH,DIRECT''])])
   \<and> nesting (JObj [(''mode'', JStr ''rule''), (''rules'', JArr [JStr ''MATCH,DIRECT''])])
        \<le> stack_limit plain_host
   \<and> deep_copy plain_host
        [CObj [(''mode'', VStr ''rule''), (''rules'', VRef 1)], CArr [VStr ''MATCH,DIRECT'']] (VRef 0)
      = Some (Inr (VRef 3),
          [CObj [(''mode'', VStr ''rule''), (''rules'', VRef 1)], CArr [VStr ''MATCH,DIRECT''],
           CArr [VStr ''MATCH,DIRECT''], CObj [(''mode'', VStr ''rule''), (''rules'', VRef 2)]])
   \<and> represents
        [CObj [(''mode'', VStr ''rule''), (''rules'', VRef 1)], CArr [VStr ''MATCH,DIRECT''],
         CArr [VStr ''MATCH,DIRECT''], CObj [(''mode'', VStr ''rule''), (''rules'', VRef 2)]] (VRef 3)
        (JObj [(''mode'', JStr ''rule''), (''rules'', JArr [JStr ''MATCH,DIRECT''])])
   \<and> validateConfig
        [CObj [(''mode'', VStr ''rule''), (''rules'', VRef 1)], CArr [VStr ''MATCH,DIRECT'']] (VRef 0) False
      = None
   \<and> includes_str
        ''function main(config) { delete config.mode; delete config.rules; config.port = 1; return config; }''
        ''function main''
   \<and> compile overwrite_engine
        ''function main(config) { delete config.mode; delete config.rules; config.port = 1; return config; }''
      = None
   \<and> finish (run overwrite_engine
        ''function main(config) { delete config.mode; delete config.rules; config.port = 1; return config; }''
        [CObj [(''mode'', VStr ''rule''), (''rules'', VRef 1)], CArr [VStr ''MATCH,DIRECT''],
         CArr [VStr ''MATCH,DIRECT''], CObj [(''mode'', VStr ''rule''), (''rules'', VRef 2)]] (VRef 3) ''x'')
      = Some (Inr (VRef 3),
          [CObj [(''mode'', VStr ''rule''), (''rules'', VRef 1)], CArr [VStr ''MATCH,DIRECT''],
           CArr [VStr ''MATCH,DIRECT''], CObj [(''port'', VNum (Fin 1))]])"
proof -
  let ?h = "[CObj [(''mode'', VStr ''rule''), (''rules'', VRef 1)], CArr [VStr ''MATCH,DIRECT'']]"
  let ?h1 = "[CObj [(''mode'', VStr ''rule''), (''rules'', VRef 1)], CArr [VStr ''MATCH,DIRECT''],
           CArr [VStr ''MATCH,DIRECT''], CObj [(''mode'', VStr ''rule''), (''rules'', VRef 2)]]"
  let ?h' = "[CObj [(''mode'', VStr ''rule''), (''rules'', VRef 1)], CArr [VStr ''MATCH,DIRECT''],
           CArr [VStr ''MATCH,DIRECT''], CObj [(''port'', VNum (Fin 1))]]"
  let ?src = "''function main(config) { delete config.mode; delete config.rules; config.port = 1; return config; }''"
  let ?j = "JObj [(''mode'', JStr ''rule''), (''rules'', JArr [JStr ''MATCH,DIRECT''])]"
  have run: "executeScript plain_host overwrite_engine ?h (VRef 0) ?src ''x'' = Some (Inr (VRef 3), ?h')"
    by code_simp
  have dc: "deep_copy plain_host ?h (VRef 0) = Some (Inr (VRef 3), ?h1)"
    by code_simp
  have rep: "represents ?h (VRef 0) ?j \<and> unique_keys ?j \<and> nesting ?j \<le> stack_limit plain_host"
    by code_simp
  have pre: "validateConfig ?h (VRef 0) False = None \<and> includes_str ?src ''function main''
      \<and> compile overwrite_engine ?src = None"
    by code_simp
  note t = caller_manifest_unchanged[OF overwrite_engine_confined plain_host_writes_nothing run]
  from t rep dc have copied: "represents ?h1 (VRef 3) ?j"
    by fastforce
  from t dc pre obtain t' where fin: "finish (run overwrite_engine ?src ?h1 (VRef 3) ''x'') = Some (t', ?h')"
    and r: "Inr (VRef 3) = (case t' of Inl e \<Rightarrow> Inl (rethrow e) | Inr v \<Rightarrow> Inr v)"
    by blast
  from r have "t' = Inr (VRef 3)"
    by (cases t') simp_all
  with fin have fin': "finish (run overwrite_engine ?src ?h1 (VRef 3) ''x'') = Some (Inr (VRef 3), ?h')"
    by simp
  from overwrite_engine_confined plain_host_writes_nothing run rep dc copied pre fin' show ?thesis
    by (intro conjI) simp_all
qed

text \<open>
  Claim C1 as the specification words it fails: a manifest whose \<open>toJSON\<close> method sets
  its own \<open>mode\<close> to \<open>global\<close> is changed by the call, which runs the method to
  serialize the manifest, though the routine changes nothing.
\<close>

theorem caller_manifest_counterexample:
  "executeScript rewriting_host (echo_engine 0) [CObj [(''mode'', VStr ''rule''), (''toJSON'', VFun 0)]]
       (VRef 0) ''function main(config) { return config; }'' ''x''
     = Some (Inr (VRef 1),
         [CObj [(''mode'', VStr ''global''), (''toJSON'', VFun 0)], CObj [(''mode'', VStr ''global'')]])
   \<and> get_prop [CObj [(''mode'', VStr ''rule''), (''toJSON'', VFun 0)]] (VRef 0) ''mode'' = VStr ''rule''
   \<and> get_prop [CObj [(''mode'', VStr ''global''), (''toJSON'', VFun 0)], CObj [(''mode'', VStr ''global'')]]
        (VRef 0) ''mode'' = VStr ''global''"
  by code_simp

section \<open>What the routine receives\<close>

lemma to_json_step_primitive:
  assumes "\<forall>b. v \<noteq> VRef b"
  shows "to_json_step hst h key v = Returned (case v of VDate s \<Rightarrow> VStr s | _ \<Rightarrow> v) h"
  using assms by (cases v) (simp_all add: to_json_step_def toJSON_method_def)

lemma ser_value_primitive:
  assumes "\<forall>b. v \<noteq> VRef b"
  shows "ser_value hst m st (case v of VDate s \<Rightarrow> VStr s | _ \<Rightarrow> v) h = SerDone (primitive_json v) h"
  using assms by (cases v) simp_all

lemma get_prop_key:
  assumes "a < length h" and "h ! a = CObj fs" and "k \<in> set (map fst fs)"
  shows "\<exists>v. (k, v) \<in> set fs \<and> get_prop h (VRef a) k = v"
proof -
  from assms(3) obtain v where "map_of fs k = Some v"
    by (cases "map_of fs k") (auto simp: map_of_eq_None_iff)
  with assms(1,2) map_of_SomeD[OF this] show ?thesis
    by auto
qed

lemma ser_members_content:
  assumes w: "writes_nothing hst" and d: "distinct (map fst fs)"
  shows "a < length h \<Longrightarrow> h ! a = CObj fs \<Longrightarrow> set ks \<subseteq> set (map fst fs)
     \<Longrightarrow> ser_members hst m st a ks h = SerDone ms h'
     \<Longrightarrow> (\<exists>ext. h' = h @ ext) \<and> set (map fst ms) \<subseteq> set ks
         \<and> (\<forall>k v. k \<in> set ks \<and> (k, v) \<in> set fs \<and> (\<forall>b. v \<noteq> VRef b) \<longrightarrow>
               (case primitive_json v of None \<Rightarrow> k \<notin> set (map fst ms) | Some j \<Rightarrow> (k, j) \<in> set ms))"
proof (induction ks arbitrary: h ms)
  case Nil
  then show ?case
    by simp
next
  case (Cons k ks)
  let ?v = "get_prop h (VRef a) k"
  from Cons.prems(3) have kin: "k \<in> set (map fst fs)" and sub: "set ks \<subseteq> set (map fst fs)"
    by simp_all
  from get_prop_key[OF Cons.prems(1,2) kin] have kv: "(k, ?v) \<in> set fs"
    by blast
  from Cons.prems(4) obtain v' h0 where step: "to_json_step hst h (Name k) ?v = Returned v' h0"
    by (cases "to_json_step hst h (Name k) ?v") simp_all
  from Cons.prems(4) step obtain jo h1 where sv: "ser_value hst m st v' h0 = SerDone jo h1"
    by (cases "ser_value hst m st v' h0") simp_all
  from Cons.prems(4) step sv obtain ms' where sm: "ser_members hst m st a ks h1 = SerDone ms' h'"
    and ms: "ms = add_member k jo ms'"
    by (cases "ser_members hst m st a ks h1") simp_all
  from to_json_step_extends[OF w, of h "Name k" ?v h0] step obtain e0 where e0: "h0 = h @ e0"
    by auto
  from ser_extends(1)[OF w, of m st v' h0] sv obtain e1 where e1: "h1 = h0 @ e1"
    by auto
  have a1: "a < length h1" and c1: "h1 ! a = CObj fs"
    using Cons.prems(1,2) e0 e1 by (simp_all add: nth_append)
  from Cons.IH[OF a1 c1 sub sm] obtain e2 where e2: "h' = h1 @ e2"
    and keys: "set (map fst ms') \<subseteq> set ks"
    and ih: "\<forall>k v. k \<in> set ks \<and> (k, v) \<in> set fs \<and> (\<forall>b. v \<noteq> VRef b) \<longrightarrow>
               (case primitive_json v of None \<Rightarrow> k \<notin> set (map fst ms') | Some j \<Rightarrow> (k, j) \<in> set ms')"
    by blast
  have ext: "\<exists>ext. h' = h @ ext"
    using e0 e1 e2 by simp
  have keys': "set (map fst ms) \<subseteq> set (k # ks)"
    using keys ms by (cases jo) auto
  have content: "case primitive_json v of None \<Rightarrow> x \<notin> set (map fst ms) | Some j \<Rightarrow> (x, j) \<in> set ms"
    if x: "x \<in> set (k # ks)" and xv: "(x, v) \<in> set fs" and nr: "\<forall>b. v \<noteq> VRef b" for x v
  proof (cases "x = k")
    case True
    with xv kv d have v: "?v = v"
      by (meson eq_key_imp_eq_value)
    from step to_json_step_primitive[OF nr, of hst h "Name k"] v
    have v': "v' = (case v of VDate s \<Rightarrow> VStr s | _ \<Rightarrow> v)" and h0: "h0 = h"
      by simp_all
    from sv ser_value_primitive[OF nr, of hst m st h0] v' have jo: "jo = primitive_json v"
      by simp
    show ?thesis
    proof (cases "primitive_json v")
      case None
      have "k \<notin> set (map fst ms')"
      proof (cases "k \<in> set ks")
        case True
        with ih kv nr v None show ?thesis
          by fastforce
      next
        case False
        with keys show ?thesis
          by blast
      qed
      with None jo ms True show ?thesis
        by simp
    next
      case (Some j)
      with jo ms True show ?thesis
        by simp
    qed
  next
    case False
    with x have xin: "x \<in> set ks"
      by simp
    from ih xin xv nr
    have r: "case primitive_json v of None \<Rightarrow> x \<notin> set (map fst ms') | Some j \<Rightarrow> (x, j) \<in> set ms'"
      by blast
    show ?thesis
    proof (cases "primitive_json v")
      case None
      with r False ms show ?thesis
        by (cases jo) auto
    next
      case (Some j)
      with r False ms show ?thesis
        by (cases jo) auto
    qed
  qed
  from ext keys' content show ?case
    by blast
qed

lemma build_members_values:
  "build_members ms h = (fs, h') \<Longrightarrow>
     map fst fs = map fst ms
     \<and> (\<forall>k. (k, JNull) \<in> set ms \<longrightarrow> (k, VNull) \<in> set fs)
     \<and> (\<forall>k b. (k, JBool b) \<in> set ms \<longrightarrow> (k, VBool b) \<in> set fs)
     \<and> (\<forall>k q. (k, JNum q) \<in> set ms \<longrightarrow> (k, VNum (Fin q)) \<in> set fs)
     \<and> (\<forall>k s. (k, JStr s) \<in> set ms \<longrightarrow> (k, VStr s) \<in> set fs)"
proof (induction ms arbitrary: h fs h')
  case Nil
  then show ?case by simp
next
  case (Cons kj ms)
  obtain k j where kj: "kj = (k, j)"
    by (cases kj)
  obtain v h1 where b1: "build j h = (v, h1)"
    by (cases "build j h")
  obtain ws h2 where b2: "build_members ms h1 = (ws, h2)"
    by (cases "build_members ms h1")
  from Cons.prems kj b1 b2 have fs: "fs = (k, v) # ws"
    by simp
  have "j = JStr s \<Longrightarrow> v = VStr s" for s
    using b1 by simp
  moreover have "j = JNull \<Longrightarrow> v = VNull"
    using b1 by simp
  moreover have "j = JBool b \<Longrightarrow> v = VBool b" for b
    using b1 by simp
  moreover have "j = JNum q \<Longrightarrow> v = VNum (Fin q)" for q
    using b1 by simp
  ultimately show ?case
    using Cons.IH[OF b2] by (auto simp: fs kj)
qed

lemma deep_copy_object:
  assumes dc: "deep_copy hst h (VRef a) = Some (Inr copy, h1)" and a: "a < length h"
    and c: "h ! a = CObj fs" and d: "distinct (map fst fs)"
    and nt: "toJSON_method h (VRef a) = None" and w: "writes_nothing hst"
  shows "\<exists>a' fs'. copy = VRef a' \<and> a' < length h1 \<and> h1 ! a' = CObj fs'
           \<and> set (map fst fs') \<subseteq> set (map fst fs)
           \<and> (\<forall>k v. (k, v) \<in> set fs \<and> (v = VUndef \<or> (\<exists>f. v = VFun f)) \<longrightarrow> k \<notin> set (map fst fs'))
           \<and> (\<forall>k s. (k, VDate s) \<in> set fs \<longrightarrow> (k, VStr s) \<in> set fs')
           \<and> (\<forall>k x. (k, VNum x) \<in> set fs \<and> (\<forall>q. x \<noteq> Fin q) \<longrightarrow> (k, VNull) \<in> set fs')
           \<and> (\<forall>k v. (k, v) \<in> set fs
                  \<and> (v = VNull \<or> (\<exists>b. v = VBool b) \<or> (\<exists>q. v = VNum (Fin q)) \<or> (\<exists>s. v = VStr s))
                \<longrightarrow> (k, v) \<in> set fs')"
proof -
  from deep_copy_json[OF dc] obtain j h0 where s: "stringify hst (VRef a) h = SerDone (Some j) h0"
    and b: "build j h0 = (copy, h1)"
    by blast
  from nt have step: "to_json_step hst h (Name []) (VRef a) = Returned (VRef a) h"
    by (simp add: to_json_step_def)
  with s have sv: "ser_value hst (stack_limit hst) [] (VRef a) h = SerDone (Some j) h0"
    by (simp add: stringify_def ser_property_def)
  then obtain m where sl: "stack_limit hst = Suc m"
    by (cases "stack_limit hst") auto
  from a c have cell: "cell_at h a = CObj fs"
    by (simp add: cell_at_def)
  from sv sl cell obtain ms where sm: "ser_members hst m [a] a (map fst fs) h = SerDone ms h0"
    and j: "j = JObj ms"
    by (auto split: ser_outcome.splits)
  from ser_members_content[OF w d a c _ sm]
  have keys: "set (map fst ms) \<subseteq> set (map fst fs)"
    and content: "\<forall>k v. k \<in> set (map fst fs) \<and> (k, v) \<in> set fs \<and> (\<forall>b. v \<noteq> VRef b) \<longrightarrow>
               (case primitive_json v of None \<Rightarrow> k \<notin> set (map fst ms) | Some j \<Rightarrow> (k, j) \<in> set ms)"
    by blast+
  have content': "case primitive_json v of None \<Rightarrow> k \<notin> set (map fst ms) | Some j \<Rightarrow> (k, j) \<in> set ms"
    if "(k, v) \<in> set fs" "\<forall>b. v \<noteq> VRef b" for k v
  proof -
    from that(1) have "k \<in> set (map fst fs)"
      by force
    with content that show ?thesis
      by blast
  qed
  obtain fs' h2 where bm: "build_members ms h0 = (fs', h2)"
    by (cases "build_members ms h0")
  from b bm j have copy: "copy = VRef (length h2)" and h1: "h1 = h2 @ [CObj fs']"
    by auto
  note v = build_members_values[OF bm]
  have 1: "set (map fst fs') \<subseteq> set (map fst fs)"
    using keys v by simp
  from v have kf: "map fst fs' = map fst ms"
    by blast
  have 2: "k \<notin> set (map fst fs')" if "(k, v) \<in> set fs" "v = VUndef \<or> (\<exists>f. v = VFun f)" for k v
  proof -
    from that(2) have nr: "\<forall>b. v \<noteq> VRef b" and p: "primitive_json v = None"
      by auto
    from content'[OF that(1) nr] p have "k \<notin> set (map fst ms)"
      by simp
    then show ?thesis
      unfolding kf .
  qed
  have 3: "(k, VStr s) \<in> set fs'" if "(k, VDate s) \<in> set fs" for k s
  proof -
    from content'[OF that] have "(k, JStr s) \<in> set ms"
      by simp
    with v show ?thesis
      by blast
  qed
  have 4: "(k, VNull) \<in> set fs'" if "(k, VNum x) \<in> set fs" "\<forall>q. x \<noteq> Fin q" for k x
  proof -
    from that(2) have "ser_num x = JNull"
      by (cases x) auto
    with content'[OF that(1)] have "(k, JNull) \<in> set ms"
      by simp
    with v show ?thesis
      by blast
  qed
  have 5: "(k, v) \<in> set fs'"
    if "(k, v) \<in> set fs"
      "v = VNull \<or> (\<exists>b. v = VBool b) \<or> (\<exists>q. v = VNum (Fin q)) \<or> (\<exists>s. v = VStr s)" for k v
  proof -
    from that(2) have nr: "\<forall>b. v \<noteq> VRef b"
      by auto
    note m = content'[OF that(1) nr]
    from that(2) consider "v = VNull" | b where "v = VBool b" | q where "v = VNum (Fin q)"
      | s where "v = VStr s"
      by blast
    then show ?thesis
    proof cases
      case 1
      with m have "(k, JNull) \<in> set ms" by simp
      with v 1 show ?thesis by blast
    next
      case 2
      with m have "(k, JBool b) \<in> set ms" by simp
      with v 2 show ?thesis by blast
    next
      case 3
      with m have "(k, JNum q) \<in> set ms" by simp
      with v 3 show ?thesis by blast
    next
      case 4
      with m have "(k, JStr s) \<in> set ms" by simp
      with v 4 show ?thesis by blast
    qed
  qed
  have "h1 ! length h2 = CObj fs'" "length h2 < length h1"
    by (simp_all add: h1)
  with copy 1 2 3 4 5 show ?thesis
    by blast
qed

lemma stringify_toJSON:
  assumes "toJSON_method h config = Some f"
  shows "stringify hst config h
     = (case call_toJSON hst f h config (Name []) of
          NeverReturns \<Rightarrow> SerNever
        | Threw t h0 \<Rightarrow> SerThrew t h0
        | Returned v h0 \<Rightarrow> ser_value hst (stack_limit hst) [] v h0)"
proof -
  from assms have "\<forall>s. config \<noteq> VDate s"
    by (auto simp: toJSON_method_def)
  with assms have "to_json_step hst h (Name []) config = call_toJSON hst f h config (Name [])"
    by (cases config) (simp_all add: to_json_step_def)
  then show ?thesis
    by (simp add: stringify_def ser_property_def)
qed

text \<open>
  Claim C10, as amended. The object handed to the routine is built from the
  JSON value the manifest serializes to, has exactly that content, and is what
  the routine is run on. For a manifest that is an object with distinct keys and without
  a \<open>toJSON\<close> method of its own, the methods below it writing to no cell that exists,
  the copy is a new object whose keys are keys of the manifest; a key whose value is
  \<open>undefined\<close> or a function is a key of the manifest and not of the copy; a Date has
  become its string and a number that is not finite has become \<open>null\<close>; \<open>null\<close>,
  booleans, finite numbers and strings are kept. For a manifest with a \<open>toJSON\<close>
  method of its own, what is serialized is the value the call of that method
  returns, not the manifest.
\<close>

theorem routine_receives_json_round_trip:
  assumes "deep_copy hst h config = Some (Inr copy, h1)"
  shows "(\<exists>j h0. stringify hst config h = SerDone (Some j) h0 \<and> build j h0 = (copy, h1)
            \<and> represents h1 copy j)
     \<and> (includes_str script ''function main'' \<and> compile eng script = None \<longrightarrow>
           try_block hst eng h config script name = finish (run eng script h1 copy name))
     \<and> (\<forall>a fs. config = VRef a \<and> a < length h \<and> h ! a = CObj fs \<and> distinct (map fst fs)
             \<and> toJSON_method h config = None \<and> writes_nothing hst \<longrightarrow>
           (\<exists>a' fs'. copy = VRef a' \<and> a' < length h1 \<and> h1 ! a' = CObj fs'
              \<and> set (map fst fs') \<subseteq> set (map fst fs)
              \<and> (\<forall>k v. (k, v) \<in> set fs \<and> (v = VUndef \<or> (\<exists>f. v = VFun f)) \<longrightarrow>
                    has_key h config k \<and> \<not> has_key h1 copy k)
              \<and> (\<forall>k s. (k, VDate s) \<in> set fs \<longrightarrow> (k, VStr s) \<in> set fs')
              \<and> (\<forall>k x. (k, VNum x) \<in> set fs \<and> (\<forall>q. x \<noteq> Fin q) \<longrightarrow> (k, VNull) \<in> set fs')
              \<and> (\<forall>k v. (k, v) \<in> set fs
                     \<and> (v = VNull \<or> (\<exists>b. v = VBool b) \<or> (\<exists>q. v = VNum (Fin q)) \<or> (\<exists>s. v = VStr s))
                   \<longrightarrow> (k, v) \<in> set fs')))
     \<and> (\<forall>f. toJSON_method h config = Some f \<longrightarrow>
           stringify hst config h
             = (case call_toJSON hst f h config (Name []) of
                  NeverReturns \<Rightarrow> SerNever
                | Threw t h0 \<Rightarrow> SerThrew t h0
                | Returned v h0 \<Rightarrow> ser_value hst (stack_limit hst) [] v h0))"
proof (intro conjI)
  show "\<exists>j h0. stringify hst config h = SerDone (Some j) h0 \<and> build j h0 = (copy, h1)
            \<and> represents h1 copy j"
    using deep_copy_json[OF assms] .
  show "includes_str script ''function main'' \<and> compile eng script = None \<longrightarrow>
           try_block hst eng h config script name = finish (run eng script h1 copy name)"
    using assms by (simp add: try_block_def invoke_def)
  show "\<forall>f. toJSON_method h config = Some f \<longrightarrow>
           stringify hst config h
             = (case call_toJSON hst f h config (Name []) of
                  NeverReturns \<Rightarrow> SerNever
                | Threw t h0 \<Rightarrow> SerThrew t h0
                | Returned v h0 \<Rightarrow> ser_value hst (stack_limit hst) [] v h0)"
    using stringify_toJSON by blast
  show "\<forall>a fs. config = VRef a \<and> a < length h \<and> h ! a = CObj fs \<and> distinct (map fst fs)
             \<and> toJSON_method h config = None \<and> writes_nothing hst \<longrightarrow>
           (\<exists>a' fs'. copy = VRef a' \<and> a' < length h1 \<and> h1 ! a' = CObj fs'
              \<and> set (map fst fs') \<subseteq> set (map fst fs)
              \<and> (\<forall>k v. (k, v) \<in> set fs \<and> (v = VUndef \<or> (\<exists>f. v = VFun f)) \<longrightarrow>
                    has_key h config k \<and> \<not> has_key h1 copy k)
              \<and> (\<forall>k s. (k, VDate s) \<in> set fs \<longrightarrow> (k, VStr s) \<in> set fs')
              \<and> (\<forall>k x. (k, VNum x) \<in> set fs \<and> (\<forall>q. x \<noteq> Fin q) \<longrightarrow> (k, VNull) \<in> set fs')
              \<and> (\<forall>k v. (k, v) \<in> set fs
                     \<and> (v = VNull \<or> (\<exists>b. v = VBool b) \<or> (\<exists>q. v = VNum (Fin q)) \<or> (\<exists>s. v = VStr s))
                   \<longrightarrow> (k, v) \<in> set fs'))"
  proof (intro allI impI)
    fix a fs
    assume c: "config = VRef a \<and> a < length h \<and> h ! a = CObj fs \<and> distinct (map fst fs)
             \<and> toJSON_method h config = None \<and> writes_nothing hst"
    then have c1: "config = VRef a" and c2: "a < length h" and c3: "h ! a = CObj fs"
      and c4: "distinct (map fst fs)" and c5: "toJSON_method h (VRef a) = None"
      and c6: "writes_nothing hst"
      by auto
    from assms c1 have dc: "deep_copy hst h (VRef a) = Some (Inr copy, h1)"
      by simp
    from deep_copy_object[OF dc c2 c3 c4 c5 c6]
    obtain a' fs' where o: "copy = VRef a'" "a' < length h1" "h1 ! a' = CObj fs'"
      "set (map fst fs') \<subseteq> set (map fst fs)"
      "\<forall>k v. (k, v) \<in> set fs \<and> (v = VUndef \<or> (\<exists>f. v = VFun f)) \<longrightarrow> k \<notin> set (map fst fs')"
      "\<forall>k s. (k, VDate s) \<in> set fs \<longrightarrow> (k, VStr s) \<in> set fs'"
      "\<forall>k x. (k, VNum x) \<in> set fs \<and> (\<forall>q. x \<noteq> Fin q) \<longrightarrow> (k, VNull) \<in> set fs'"
      "\<forall>k v. (k, v) \<in> set fs
           \<and> (v = VNull \<or> (\<exists>b. v = VBool b) \<or> (\<exists>q. v = VNum (Fin q)) \<or> (\<exists>s. v = VStr s))
         \<longrightarrow> (k, v) \<in> set fs'"
      by blast
    have "has_key h config k \<and> \<not> has_key h1 copy k"
      if "(k, v) \<in> set fs \<and> (v = VUndef \<or> (\<exists>f. v = VFun f))" for k v
    proof -
      from that o(5) have "k \<notin> set (map fst fs')"
        by blast
      then have "map_of fs' k = None"
        by (simp add: map_of_eq_None_iff)
      moreover from that have "map_of fs k \<noteq> None"
        using weak_map_of_SomeI[of k v fs] by auto
      ultimately show ?thesis
        using c1 c2 c3 o(1,2,3) by simp
    qed
    then have "\<forall>k v. (k, v) \<in> set fs \<and> (v = VUndef \<or> (\<exists>f. v = VFun f)) \<longrightarrow>
                    has_key h config k \<and> \<not> has_key h1 copy k"
      by blast
    with o(1,2,3,4,6,7,8)
    show "\<exists>a' fs'. copy = VRef a' \<and> a' < length h1 \<and> h1 ! a' = CObj fs'
              \<and> set (map fst fs') \<subseteq> set (map fst fs)
              \<and> (\<forall>k v. (k, v) \<in> set fs \<and> (v = VUndef \<or> (\<exists>f. v = VFun f)) \<longrightarrow>
                    has_key h config k \<and> \<not> has_key h1 copy k)
              \<and> (\<forall>k s. (k, VDate s) \<in> set fs \<longrightarrow> (k, VStr s) \<in> set fs')
              \<and> (\<forall>k x. (k, VNum x) \<in> set fs \<and> (\<forall>q. x \<noteq> Fin q) \<longrightarrow> (k, VNull) \<in> set fs')
              \<and> (\<forall>k v. (k, v) \<in> set fs
                     \<and> (v = VNull \<or> (\<exists>b. v = VBool b) \<or> (\<exists>q. v = VNum (Fin q)) \<or> (\<exists>s. v = VStr s))
                   \<longrightarrow> (k, v) \<in> set fs')"
      by blast
  qed
qed

text \<open>
  The theorem at a manifest with a number, a function, an \<open>undefined\<close> value, a Date
  and NaN, and at a manifest with a \<open>toJSON\<close> method that returns \<open>{gone: 1}\<close>.
\<close>

theorem routine_receives_json_round_trip_witness:
  "deep_copy plain_host
     [CObj [(''port'', VNum (Fin 7890)), (''hook'', VFun 0), (''gone'', VUndef),
            (''expires'', VDate ''2030-01-01T00:00:00.000Z''), (''ratio'', VNum NaN)]] (VRef 0)
     = Some (Inr (VRef 1),
        [CObj [(''port'', VNum (Fin 7890)), (''hook'', VFun 0), (''gone'', VUndef),
               (''expires'', VDate ''2030-01-01T00:00:00.000Z''), (''ratio'', VNum NaN)],
         CObj [(''port'', VNum (Fin 7890)), (''expires'', VStr ''2030-01-01T00:00:00.000Z''),
               (''ratio'', VNull)]])
   \<and> toJSON_method
        [CObj [(''port'', VNum (Fin 7890)), (''hook'', VFun 0), (''gone'', VUndef),
               (''expires'', VDate ''2030-01-01T00:00:00.000Z''), (''ratio'', VNum NaN)]] (VRef 0) = None
   \<and> writes_nothing plain_host
   \<and> has_key
        [CObj [(''port'', VNum (Fin 7890)), (''hook'', VFun 0), (''gone'', VUndef),
               (''expires'', VDate ''2030-01-01T00:00:00.000Z''), (''ratio'', VNum NaN)]] (VRef 0) ''gone''
   \<and> \<not> has_key
        [CObj [(''port'', VNum (Fin 7890)), (''hook'', VFun 0), (''gone'', VUndef),
               (''expires'', VDate ''2030-01-01T00:00:00.000Z''), (''ratio'', VNum NaN)],
         CObj [(''port'', VNum (Fin 7890)), (''expires'', VStr ''2030-01-01T00:00:00.000Z''),
               (''ratio'', VNull)]]
        (VRef 1) ''gone''
   \<and> includes_str ''function main(config) { return config; }'' ''function main''
   \<and> compile (echo_engine 0) ''function main(config) { return config; }'' = None
   \<and> try_block plain_host (echo_engine 0)
        [CObj [(''port'', VNum (Fin 7890)), (''hook'', VFun 0), (''gone'', VUndef),
               (''expires'', VDate ''2030-01-01T00:00:00.000Z''), (''ratio'', VNum NaN)]] (VRef 0)
        ''function main(config) { return config; }'' ''x''
     = finish (run (echo_engine 0) ''function main(config) { return config; }''
        [CObj [(''port'', VNum (Fin 7890)), (''hook'', VFun 0), (''gone'', VUndef),
               (''expires'', VDate ''2030-01-01T00:00:00.000Z''), (''ratio'', VNum NaN)],
         CObj [(''port'', VNum (Fin 7890)), (''expires'', VStr ''2030-01-01T00:00:00.000Z''),
               (''ratio'', VNull)]] (VRef 1) ''x'')
   \<and> deep_copy replacing_host [CObj [(''mode'', VStr ''rule''), (''toJSON'', VFun 0)]] (VRef 0)
     = Some (Inr (VRef 2),
         [CObj [(''mode'', VStr ''rule''), (''toJSON'', VFun 0)], CObj [(''gone'', VNum (Fin 1))],
          CObj [(''gone'', VNum (Fin 1))]])
   \<and> toJSON_method [CObj [(''mode'', VStr ''rule''), (''toJSON'', VFun 0)]] (VRef 0) = Some 0
   \<and> stringify replacing_host (VRef 0) [CObj [(''mode'', VStr ''rule''), (''toJSON'', VFun 0)]]
     = SerDone (Some (JObj [(''gone'', JNum 1)]))
         [CObj [(''mode'', VStr ''rule''), (''toJSON'', VFun 0)], CObj [(''gone'', VNum (Fin 1))]]"
proof -
  let ?fs = "[(''port'', VNum (Fin 7890)), (''hook'', VFun 0), (''gone'', VUndef),
            (''expires'', VDate ''2030-01-01T00:00:00.000Z''), (''ratio'', VNum NaN)]"
  let ?h = "[CObj ?fs]"
  let ?h1 = "[CObj ?fs,
         CObj [(''port'', VNum (Fin 7890)), (''expires'', VStr ''2030-01-01T00:00:00.000Z''),
               (''ratio'', VNull)]]"
  let ?src = "''function main(config) { return config; }''"
  let ?g = "[CObj [(''mode'', VStr ''rule''), (''toJSON'', VFun 0)]]"
  let ?g1 = "[CObj [(''mode'', VStr ''rule''), (''toJSON'', VFun 0)], CObj [(''gone'', VNum (Fin 1))],
          CObj [(''gone'', VNum (Fin 1))]]"
  have dc: "deep_copy plain_host ?h (VRef 0) = Some (Inr (VRef 1), ?h1)"
    by code_simp
  have pre: "VRef 0 = VRef 0 \<and> 0 < length ?h \<and> ?h ! 0 = CObj ?fs \<and> distinct (map fst ?fs)
      \<and> toJSON_method ?h (VRef 0) = None \<and> writes_nothing plain_host"
    using plain_host_writes_nothing by (simp add: toJSON_method_def)
  have g: "(''gone'', VUndef) \<in> set ?fs \<and> (VUndef = VUndef \<or> (\<exists>f. VUndef = VFun f))"
    by simp
  have src: "includes_str ?src ''function main'' \<and> compile (echo_engine 0) ?src = None"
    by code_simp
  note t = routine_receives_json_round_trip[OF dc, of ?src "echo_engine 0" "''x''"]
  from t pre have "\<exists>a' fs'. VRef 1 = VRef a' \<and> a' < length ?h1 \<and> ?h1 ! a' = CObj fs'
      \<and> set (map fst fs') \<subseteq> set (map fst ?fs)
      \<and> (\<forall>k v. (k, v) \<in> set ?fs \<and> (v = VUndef \<or> (\<exists>f. v = VFun f)) \<longrightarrow>
            has_key ?h (VRef 0) k \<and> \<not> has_key ?h1 (VRef 1) k)
      \<and> (\<forall>k s. (k, VDate s) \<in> set ?fs \<longrightarrow> (k, VStr s) \<in> set fs')
      \<and> (\<forall>k x. (k, VNum x) \<in> set ?fs \<and> (\<forall>q. x \<noteq> Fin q) \<longrightarrow> (k, VNull) \<in> set fs')
      \<and> (\<forall>k v. (k, v) \<in> set ?fs
             \<and> (v = VNull \<or> (\<exists>b. v = VBool b) \<or> (\<exists>q. v = VNum (Fin q)) \<or> (\<exists>s. v = VStr s))
           \<longrightarrow> (k, v) \<in> set fs')"
    by blast
  then have "\<forall>k v. (k, v) \<in> set ?fs \<and> (v = VUndef \<or> (\<exists>f. v = VFun f)) \<longrightarrow>
            has_key ?h (VRef 0) k \<and> \<not> has_key ?h1 (VRef 1) k"
    by blast
  with g have k: "has_key ?h (VRef 0) ''gone'' \<and> \<not> has_key ?h1 (VRef 1) ''gone''"
    by blast
  from t src have tb: "try_block plain_host (echo_engine 0) ?h (VRef 0) ?src ''x''
     = finish (run (echo_engine 0) ?src ?h1 (VRef 1) ''x'')"
    by blast
  have dc2: "deep_copy replacing_host ?g (VRef 0) = Some (Inr (VRef 2), ?g1)"
    by code_simp
  have tj: "toJSON_method ?g (VRef 0) = Some 0"
    by (simp add: toJSON_method_def)
  note t2 = routine_receives_json_round_trip[OF dc2, of ?src "echo_engine 0" "''x''"]
  from t2 tj have "stringify replacing_host (VRef 0) ?g
     = (case call_toJSON replacing_host 0 ?g (VRef 0) (Name []) of
          NeverReturns \<Rightarrow> SerNever
        | Threw t h0 \<Rightarrow> SerThrew t h0
        | Returned v h0 \<Rightarrow> ser_value replacing_host (stack_limit replacing_host) [] v h0)"
    by blast
  also have "\<dots> = SerDone (Some (JObj [(''gone'', JNum 1)]))
         [CObj [(''mode'', VStr ''rule''), (''toJSON'', VFun 0)], CObj [(''gone'', VNum (Fin 1))]]"
    by code_simp
  finally have st: "stringify replacing_host (VRef 0) ?g
     = SerDone (Some (JObj [(''gone'', JNum 1)]))
         [CObj [(''mode'', VStr ''rule''), (''toJSON'', VFun 0)], CObj [(''gone'', VNum (Fin 1))]]" .
  from dc pre k src tb dc2 tj st show ?thesis
    by (intro conjI) simp_all
qed

text \<open>
  Claim C10 as the specification words it fails: in a manifest whose \<open>toJSON\<close> method
  returns \<open>{gone: 1}\<close> the value of the key \<open>gone\<close> is \<open>undefined\<close>, and the copy has the
  key \<open>gone\<close>.
\<close>

theorem routine_receives_counterexample:
  "deep_copy replacing_host [CObj [(''gone'', VUndef), (''toJSON'', VFun 0)]] (VRef 0)
     = Some (Inr (VRef 2),
         [CObj [(''gone'', VUndef), (''toJSON'', VFun 0)], CObj [(''gone'', VNum (Fin 1))],
          CObj [(''gone'', VNum (Fin 1))]])
   \<and> get_prop [CObj [(''gone'', VUndef), (''toJSON'', VFun 0)]] (VRef 0) ''gone'' = VUndef
   \<and> has_key
        [CObj [(''gone'', VUndef), (''toJSON'', VFun 0)], CObj [(''gone'', VNum (Fin 1))],
         CObj [(''gone'', VNum (Fin 1))]] (VRef 2) ''gone''"
  by code_simp

section \<open>The batch runner, file by file\<close>



lemma convert_file_returns:
  assumes "\<forall>c s p. executeScript_option opts c s p \<noteq> None"
  shows "\<exists>r fs'. convert_file env opts script fs file = Some (r, fs')"
proof (cases "case readFileSync fs file of Inl m \<Rightarrow> Inl m | Inr content \<Rightarrow> yaml_load env content")
  case (Inl m)
  then show ?thesis
    by (simp add: convert_file_def)
next
  case (Inr config)
  from assms obtain x where x: "executeScript_option opts config script (path_stem env file) = Some x"
    by (metis option.exhaust)
  show ?thesis
  proof (cases x)
    case (Inl m)
    with Inr x show ?thesis
      by (simp add: convert_file_def)
  next
    case (Inr processedConfig)
    note ex = Inr
    note rd = \<open>(case readFileSync fs file of Inl m \<Rightarrow> Inl m | Inr content \<Rightarrow> yaml_load env content) = Inr config\<close>
    show ?thesis
    proof (cases "yaml_dump env processedConfig")
      case (Inl m)
      with rd x ex show ?thesis
        by (simp add: convert_file_def)
    next
      case (Inr yamlStr)
      with rd x ex show ?thesis
        by (cases "writeFileSync env fs (outputPath_of env opts file) yamlStr")
          (simp_all add: convert_file_def)
    qed
  qed
qed

lemma processFile_returns:
  assumes "\<forall>c s p. executeScript_option opts c s p \<noteq> None"
  shows "\<exists>r fs'. processFile env opts script fs file = Some (r, fs')"
proof (cases "readFileSync fs file")
  case (Inl m)
  then show ?thesis
    by (simp add: processFile_def)
next
  case (Inr content)
  note rd = Inr
  show ?thesis
  proof (cases "yaml_load env content")
    case (Inl m)
    with rd show ?thesis
      by (simp add: processFile_def)
  next
    case (Inr config)
    note ld = Inr
    from assms obtain x where x: "executeScript_option opts config script (path_stem env file) = Some x"
      by (metis option.exhaust)
    show ?thesis
    proof (cases x)
      case (Inl m)
      with rd ld x show ?thesis
        by (simp add: processFile_def)
    next
      case (Inr processedConfig)
      note ex = Inr
      show ?thesis
      proof (cases "yaml_dump env processedConfig")
        case (Inl m)
        with rd ld x ex show ?thesis
          by (simp add: processFile_def)
      next
        case (Inr yamlStr)
        with rd ld x ex show ?thesis
          by (cases "writeFileSync env fs (outputPath_of env opts file) yamlStr")
            (simp_all add: processFile_def)
      qed
    qed
  qed
qed

lemma entry_shape:
  "entry file out = (case out of
       Inl m \<Rightarrow> \<lparr>input = Some file, outputPath = None, error = Some m, success = False\<rparr>
     | Inr path \<Rightarrow> \<lparr>input = Some file, outputPath = Some path, error = None, success = True\<rparr>)"
  by (cases out) (simp_all add: entry_def failed_def succeeded_def)



lemma process_files_chain:
  assumes "\<forall>c s p. executeScript_option opts c s p \<noteq> None"
  shows "\<exists>rs fss. process_files env opts script files seen fs
           = Some (rs, fss ! length (unique_from seen files))
         \<and> length rs = length (unique_from seen files)
         \<and> length fss = Suc (length (unique_from seen files)) \<and> fss ! 0 = fs
         \<and> (\<forall>i < length (unique_from seen files).
               \<exists>r. convert_file env opts script (fss ! i) (unique_from seen files ! i)
                      = Some (r, fss ! Suc i)
                  \<and> rs ! i = entry (unique_from seen files ! i) r)"
proof (induction files arbitrary: seen fs)
  case Nil
  have "process_files env opts script [] seen fs = Some ([], [fs] ! length (unique_from seen []))
      \<and> length ([] :: result list) = length (unique_from seen [])
      \<and> length [fs] = Suc (length (unique_from seen [])) \<and> [fs] ! 0 = fs
      \<and> (\<forall>i < length (unique_from seen []).
               \<exists>r. convert_file env opts script ([fs] ! i) (unique_from seen [] ! i)
                      = Some (r, [fs] ! Suc i)
                  \<and> ([] :: result list) ! i = entry (unique_from seen [] ! i) r)"
    by simp
  then show ?case
    by (intro exI[of _ "[] :: result list"] exI[of _ "[fs]"])
next
  case (Cons f rest)
  show ?case
  proof (cases "f \<in> set seen")
    case True
    with Cons.IH[of seen fs] show ?thesis
      by simp
  next
    case False
    define us where "us = unique_from (f # seen) rest"
    from False have u: "unique_from seen (f # rest) = f # us"
      by (simp add: us_def)
    from convert_file_returns[OF assms] obtain r fs1
      where c: "convert_file env opts script fs f = Some (r, fs1)"
      by blast
    from Cons.IH[of "f # seen" fs1] obtain rs fss
      where p: "process_files env opts script rest (f # seen) fs1 = Some (rs, fss ! length us)"
        and lr: "length rs = length us" and lf: "length fss = Suc (length us)"
        and f0: "fss ! 0 = fs1"
        and ch: "\<forall>i < length us. \<exists>r. convert_file env opts script (fss ! i) (us ! i)
                      = Some (r, fss ! Suc i) \<and> rs ! i = entry (us ! i) r"
      unfolding us_def by blast
    let ?rs = "entry f r # rs" and ?fss = "fs # fss"
    have 1: "process_files env opts script (f # rest) seen fs = Some (?rs, ?fss ! length (f # us))"
      using False c p by simp
    have 2: "length ?rs = length (f # us)" "length ?fss = Suc (length (f # us))" "?fss ! 0 = fs"
      using lr lf by simp_all
    have 3: "\<exists>r'. convert_file env opts script (?fss ! i) ((f # us) ! i) = Some (r', ?fss ! Suc i)
                  \<and> ?rs ! i = entry ((f # us) ! i) r'" if "i < length (f # us)" for i
    proof (cases i)
      case 0
      with c f0 show ?thesis
        by simp
    next
      case (Suc k)
      with that have "k < length us"
        by simp
      with ch Suc show ?thesis
        by simp
    qed
    from 3 have 4: "\<forall>i < length (f # us).
        \<exists>r'. convert_file env opts script (?fss ! i) ((f # us) ! i) = Some (r', ?fss ! Suc i)
                  \<and> ?rs ! i = entry ((f # us) ! i) r'"
      by blast
    show ?thesis
      unfolding u by (intro exI[of _ ?rs] exI[of _ ?fss] conjI 1 2 4)
  qed
qed

lemma process_group_chain:
  assumes "\<forall>c s p. executeScript_option opts c s p \<noteq> None"
  shows "\<exists>rs fss. process_group env opts script files fs = Some (rs, fss ! length files)
         \<and> length rs = length files \<and> length fss = Suc (length files) \<and> fss ! 0 = fs
         \<and> (\<forall>i < length files.
               processFile env opts script (fss ! i) (files ! i) = Some (rs ! i, fss ! Suc i))"
proof (induction files arbitrary: fs)
  case Nil
  have "process_group env opts script [] fs = Some ([], [fs] ! length ([] :: string list))
      \<and> length ([] :: result list) = length ([] :: string list)
      \<and> length [fs] = Suc (length ([] :: string list)) \<and> [fs] ! 0 = fs
      \<and> (\<forall>i < length ([] :: string list).
               processFile env opts script ([fs] ! i) ([] ! i) = Some (([] :: result list) ! i, [fs] ! Suc i))"
    by simp
  then show ?case
    by (intro exI[of _ "[] :: result list"] exI[of _ "[fs]"])
next
  case (Cons f rest)
  from processFile_returns[OF assms] obtain r fs1
    where c: "processFile env opts script fs f = Some (r, fs1)"
    by blast
  from Cons.IH[of fs1] obtain rs fss
    where p: "process_group env opts script rest fs1 = Some (rs, fss ! length rest)"
      and lr: "length rs = length rest" and lf: "length fss = Suc (length rest)"
      and f0: "fss ! 0 = fs1"
      and ch: "\<forall>i < length rest.
                 processFile env opts script (fss ! i) (rest ! i) = Some (rs ! i, fss ! Suc i)"
    by blast
  let ?rs = "r # rs" and ?fss = "fs # fss"
  have 1: "process_group env opts script (f # rest) fs = Some (?rs, ?fss ! length (f # rest))"
    using c p by simp
  have 2: "length ?rs = length (f # rest)" "length ?fss = Suc (length (f # rest))" "?fss ! 0 = fs"
    using lr lf by simp_all
  have 3: "processFile env opts script (?fss ! i) ((f # rest) ! i) = Some (?rs ! i, ?fss ! Suc i)"
    if "i < length (f # rest)" for i
  proof (cases i)
    case 0
    with c f0 show ?thesis
      by simp
  next
    case (Suc k)
    with that have "k < length rest"
      by simp
    with ch Suc show ?thesis
      by simp
  qed
  from 3 have 4: "\<forall>i < length (f # rest).
      processFile env opts script (?fss ! i) ((f # rest) ! i) = Some (?rs ! i, ?fss ! Suc i)"
    by blast
  show ?case
    by (intro exI[of _ ?rs] exI[of _ ?fss] conjI 1 2 4)
qed

lemma slices_concat: "0 < n \<Longrightarrow> concat (slices n xs) = xs"
proof (induction n xs rule: slices.induct)
  case (1 n xs)
  show ?case
  proof (cases "xs = []")
    case True
    then show ?thesis
      by (subst slices.simps) simp
  next
    case False
    with 1 have "concat (slices n (drop n xs)) = drop n xs"
      by simp
    with False 1(2) show ?thesis
      by (subst slices.simps) simp
  qed
qed

lemma process_group_append:
  "process_group env opts script (xs @ ys) fs =
     (case process_group env opts script xs fs of
        None \<Rightarrow> None
      | Some (rs, fs1) \<Rightarrow>
          (case process_group env opts script ys fs1 of
             None \<Rightarrow> None
           | Some (rs', fs2) \<Rightarrow> Some (rs @ rs', fs2)))"
proof (induction xs arbitrary: fs)
  case Nil
  show ?case
    by (cases "process_group env opts script ys fs") auto
next
  case (Cons x xs)
  show ?case
  proof (cases "processFile env opts script fs x")
    case None
    then show ?thesis
      by simp
  next
    case (Some a)
    obtain r fs1 where a: "a = (r, fs1)"
      by (cases a)
    show ?thesis
    proof (cases "process_group env opts script xs fs1")
      case None
      with Some a Cons.IH[of fs1] show ?thesis
        by simp
    next
      case (Some b)
      obtain rs fs2 where b: "b = (rs, fs2)"
        by (cases b)
      show ?thesis
      proof (cases "process_group env opts script ys fs2")
        case None
        with \<open>processFile env opts script fs x = Some a\<close> a Some b Cons.IH[of fs1] show ?thesis
          by simp
      next
        case (Some c)
        obtain rs' fs3 where c: "c = (rs', fs3)"
          by (cases c)
        from Some c \<open>processFile env opts script fs x = Some a\<close> a
          \<open>process_group env opts script xs fs1 = Some b\<close> b Cons.IH[of fs1]
        show ?thesis
          by simp
      qed
    qed
  qed
qed

lemma process_groups_concat:
  "process_groups env opts script gs fs = process_group env opts script (concat gs) fs"
proof (induction gs arbitrary: fs)
  case Nil
  show ?case
    by simp
next
  case (Cons g gs)
  show ?case
  proof (cases "process_group env opts script g fs")
    case None
    then show ?thesis
      by (simp add: process_group_append)
  next
    case (Some a)
    obtain rs fs1 where a: "a = (rs, fs1)"
      by (cases a)
    with Some Cons.IH[of fs1] show ?thesis
      by (simp add: process_group_append)
  qed
qed

lemma batchProcess_loop:
  "prepare env opts fs = Inr (script, matched) \<Longrightarrow>
     batchProcess env opts fs = process_files env opts script matched [] fs"
  by (simp add: batchProcess_def)

lemma batchProcessParallel_loop:
  assumes "prepare env opts fs = Inr (script, matched)" and "0 < concurrency opts"
  shows "batchProcessParallel env opts fs
     = (case process_group env opts script matched fs of
          None \<Rightarrow> None | Some (rs, fs') \<Rightarrow> Some (Inr rs, fs'))"
proof (cases "matched = []")
  case True
  with assms show ?thesis
    by (simp add: batchProcessParallel_def)
next
  case False
  with assms show ?thesis
    by (simp add: batchProcessParallel_def fileGroups_def process_groups_concat
        slices_concat[OF assms(2)])
qed






lemma file_outcomes:
  "(fs0 file = None \<longrightarrow>
       convert_file env opts script fs0 file
         = Some (Inl (ReadOrParseFailed (no_such_file file)), fs0)
     \<and> processFile env opts script fs0 file
         = Some (\<lparr>input = Some file, outputPath = None, error = Some (Plain (no_such_file file)),
                  success = False\<rparr>, fs0))
   \<and> (fs0 file = Some content \<and> yaml_load env content = Inl m \<longrightarrow>
       convert_file env opts script fs0 file = Some (Inl (ReadOrParseFailed m), fs0)
     \<and> processFile env opts script fs0 file
         = Some (\<lparr>input = Some file, outputPath = None, error = Some (Plain m), success = False\<rparr>, fs0))
   \<and> (fs0 file = Some content \<and> yaml_load env content = Inr config
        \<and> executeScript_option opts config script (path_stem env file) = Some (Inl m) \<longrightarrow>
       convert_file env opts script fs0 file = Some (Inl (Plain m), fs0)
     \<and> processFile env opts script fs0 file
         = Some (\<lparr>input = Some file, outputPath = None, error = Some (Plain m), success = False\<rparr>, fs0))
   \<and> (fs0 file = Some content \<and> yaml_load env content = Inr config
        \<and> executeScript_option opts config script (path_stem env file) = Some (Inr processed)
        \<and> yaml_dump env processed = Inl m \<longrightarrow>
       convert_file env opts script fs0 file = Some (Inl (WriteFailed m), fs0)
     \<and> processFile env opts script fs0 file
         = Some (\<lparr>input = Some file, outputPath = None, error = Some (Plain m), success = False\<rparr>, fs0))
   \<and> (fs0 file = Some content \<and> yaml_load env content = Inr config
        \<and> executeScript_option opts config script (path_stem env file) = Some (Inr processed)
        \<and> yaml_dump env processed = Inr yamlStr
        \<and> write_error env (outputPath_of env opts file) = Some m \<longrightarrow>
       convert_file env opts script fs0 file = Some (Inl (WriteFailed m), fs0)
     \<and> processFile env opts script fs0 file
         = Some (\<lparr>input = Some file, outputPath = None, error = Some (Plain m), success = False\<rparr>, fs0))
   \<and> (fs0 file = Some content \<and> yaml_load env content = Inr config
        \<and> executeScript_option opts config script (path_stem env file) = Some (Inr processed)
        \<and> yaml_dump env processed = Inr yamlStr
        \<and> write_error env (outputPath_of env opts file) = None \<longrightarrow>
       convert_file env opts script fs0 file
         = Some (Inr (outputPath_of env opts file), fs0(outputPath_of env opts file \<mapsto> yamlStr))
     \<and> processFile env opts script fs0 file
         = Some (\<lparr>input = Some file, outputPath = Some (outputPath_of env opts file), error = None,
                  success = True\<rparr>, fs0(outputPath_of env opts file \<mapsto> yamlStr)))"
  by (simp add: convert_file_def processFile_def readFileSync_def writeFileSync_def failed_def
      succeeded_def)

text \<open>
  Claim C8. When the routine executor returns on every call and the batch gets as
  far as its loop, \<open>batchProcess\<close> returns with one entry for every unique matched
  path and \<open>batchProcessParallel\<close>, with a positive \<open>concurrency\<close>, with one for every
  matched path. Entry \<open>i\<close> is the outcome of the conversion of file \<open>i\<close>, run on the
  files of the start as the conversions before it have left them:
  \<open>{input, output, success: true}\<close>, or \<open>{input, error, success: false}\<close> when the
  conversion failed, and the conversion of the next file follows in both cases. A
  file that is missing, a content that is not YAML, a failure of the routine, a
  result that cannot be dumped and an output that cannot be written are each such a
  failure of the one file, recorded with its message, and leave the files as they
  are; a conversion that succeeds writes the dumped result to the output path.
\<close>

theorem batch_isolates_failures:
  assumes "\<forall>c s p. executeScript_option opts c s p \<noteq> None"
    and "prepare env opts fs = Inr (script, matched)"
  shows "(\<exists>rs fss. batchProcess env opts fs = Some (rs, fss ! length (unique_from [] matched))
           \<and> length rs = length (unique_from [] matched)
           \<and> length fss = Suc (length (unique_from [] matched)) \<and> fss ! 0 = fs
           \<and> (\<forall>i < length (unique_from [] matched).
                 \<exists>r. convert_file env opts script (fss ! i) (unique_from [] matched ! i)
                        = Some (r, fss ! Suc i)
                    \<and> rs ! i = (case r of
                         Inl m \<Rightarrow> \<lparr>input = Some (unique_from [] matched ! i), outputPath = None,
                                    error = Some m, success = False\<rparr>
                       | Inr path \<Rightarrow> \<lparr>input = Some (unique_from [] matched ! i),
                                      outputPath = Some path, error = None, success = True\<rparr>)))
     \<and> (0 < concurrency opts \<longrightarrow>
           (\<exists>rs fss. batchProcessParallel env opts fs = Some (Inr rs, fss ! length matched)
              \<and> length rs = length matched
              \<and> length fss = Suc (length matched) \<and> fss ! 0 = fs
              \<and> (\<forall>i < length matched.
                    processFile env opts script (fss ! i) (matched ! i) = Some (rs ! i, fss ! Suc i))))
     \<and> (\<forall>fs0 file content config processed yamlStr m.
          (fs0 file = None \<longrightarrow>
              convert_file env opts script fs0 file
                = Some (Inl (ReadOrParseFailed (no_such_file file)), fs0)
            \<and> processFile env opts script fs0 file
                = Some (\<lparr>input = Some file, outputPath = None,
                         error = Some (Plain (no_such_file file)), success = False\<rparr>, fs0))
          \<and> (fs0 file = Some content \<and> yaml_load env content = Inl m \<longrightarrow>
              convert_file env opts script fs0 file = Some (Inl (ReadOrParseFailed m), fs0)
            \<and> processFile env opts script fs0 file
                = Some (\<lparr>input = Some file, outputPath = None, error = Some (Plain m),
                         success = False\<rparr>, fs0))
          \<and> (fs0 file = Some content \<and> yaml_load env content = Inr config
               \<and> executeScript_option opts config script (path_stem env file) = Some (Inl m) \<longrightarrow>
              convert_file env opts script fs0 file = Some (Inl (Plain m), fs0)
            \<and> processFile env opts script fs0 file
                = Some (\<lparr>input = Some file, outputPath = None, error = Some (Plain m),
                         success = False\<rparr>, fs0))
          \<and> (fs0 file = Some content \<and> yaml_load env content = Inr config
               \<and> executeScript_option opts config script (path_stem env file) = Some (Inr processed)
               \<and> yaml_dump env processed = Inl m \<longrightarrow>
              convert_file env opts script fs0 file = Some (Inl (WriteFailed m), fs0)
            \<and> processFile env opts script fs0 file
                = Some (\<lparr>input = Some file, outputPath = None, error = Some (Plain m),
                         success = False\<rparr>, fs0))
          \<and> (fs0 file = Some content \<and> yaml_load env content = Inr config
               \<and> executeScript_option opts config script (path_stem env file) = Some (Inr processed)
               \<and> yaml_dump env processed = Inr yamlStr
               \<and> write_error env (outputPath_of env opts file) = Some m \<longrightarrow>
              convert_file env opts script fs0 file = Some (Inl (WriteFailed m), fs0)
            \<and> processFile env opts script fs0 file
                = Some (\<lparr>input = Some file, outputPath = None, error = Some (Plain m),
                         success = False\<rparr>, fs0))
          \<and> (fs0 file = Some content \<and> yaml_load env content = Inr config
               \<and> executeScript_option opts config script (path_stem env file) = Some (Inr processed)
               \<and> yaml_dump env processed = Inr yamlStr
               \<and> write_error env (outputPath_of env opts file) = None \<longrightarrow>
              convert_file env opts script fs0 file
                = Some (Inr (outputPath_of env opts file),
                        fs0(outputPath_of env opts file \<mapsto> yamlStr))
            \<and> processFile env opts script fs0 file
                = Some (\<lparr>input = Some file, outputPath = Some (outputPath_of env opts file),
                         error = None, success = True\<rparr>,
                        fs0(outputPath_of env opts file \<mapsto> yamlStr))))"
proof (intro conjI)
  let ?us = "unique_from [] matched"
  from process_files_chain[OF assms(1), of env script matched "[]" fs] obtain rs fss
    where p: "process_files env opts script matched [] fs = Some (rs, fss ! length ?us)"
      and lr: "length rs = length ?us" and lf: "length fss = Suc (length ?us)" and f0: "fss ! 0 = fs"
      and ch: "\<forall>i < length ?us. \<exists>r. convert_file env opts script (fss ! i) (?us ! i)
                 = Some (r, fss ! Suc i) \<and> rs ! i = entry (?us ! i) r"
    by blast
  from batchProcess_loop[OF assms(2)] p
  have b: "batchProcess env opts fs = Some (rs, fss ! length ?us)"
    by simp
  show "\<exists>rs fss. batchProcess env opts fs = Some (rs, fss ! length ?us)
           \<and> length rs = length ?us
           \<and> length fss = Suc (length ?us) \<and> fss ! 0 = fs
           \<and> (\<forall>i < length ?us.
                 \<exists>r. convert_file env opts script (fss ! i) (?us ! i) = Some (r, fss ! Suc i)
                    \<and> rs ! i = (case r of
                         Inl m \<Rightarrow> \<lparr>input = Some (?us ! i), outputPath = None,
                                    error = Some m, success = False\<rparr>
                       | Inr path \<Rightarrow> \<lparr>input = Some (?us ! i),
                                      outputPath = Some path, error = None, success = True\<rparr>))"
    using b lr lf f0 ch unfolding entry_shape
    by (intro exI[of _ rs] exI[of _ fss] conjI)
next
  show "0 < concurrency opts \<longrightarrow>
           (\<exists>rs fss. batchProcessParallel env opts fs = Some (Inr rs, fss ! length matched)
              \<and> length rs = length matched
              \<and> length fss = Suc (length matched) \<and> fss ! 0 = fs
              \<and> (\<forall>i < length matched.
                    processFile env opts script (fss ! i) (matched ! i) = Some (rs ! i, fss ! Suc i)))"
  proof
    assume n: "0 < concurrency opts"
    from process_group_chain[OF assms(1), of env script matched fs] obtain rs fss
      where p: "process_group env opts script matched fs = Some (rs, fss ! length matched)"
        and lr: "length rs = length matched" and lf: "length fss = Suc (length matched)"
        and f0: "fss ! 0 = fs"
        and ch: "\<forall>i < length matched.
                   processFile env opts script (fss ! i) (matched ! i) = Some (rs ! i, fss ! Suc i)"
      by blast
    from batchProcessParallel_loop[OF assms(2) n] p
    have b: "batchProcessParallel env opts fs = Some (Inr rs, fss ! length matched)"
      by simp
    show "\<exists>rs fss. batchProcessParallel env opts fs = Some (Inr rs, fss ! length matched)
              \<and> length rs = length matched
              \<and> length fss = Suc (length matched) \<and> fss ! 0 = fs
              \<and> (\<forall>i < length matched.
                    processFile env opts script (fss ! i) (matched ! i) = Some (rs ! i, fss ! Suc i))"
      using b lr lf f0 ch by (intro exI[of _ rs] exI[of _ fss] conjI)
  qed
next
  show "\<forall>fs0 file content config processed yamlStr m.
          (fs0 file = None \<longrightarrow>
              convert_file env opts script fs0 file
                = Some (Inl (ReadOrParseFailed (no_such_file file)), fs0)
            \<and> processFile env opts script fs0 file
                = Some (\<lparr>input = Some file, outputPath = None,
                         error = Some (Plain (no_such_file file)), success = False\<rparr>, fs0))
          \<and> (fs0 file = Some content \<and> yaml_load env content = Inl m \<longrightarrow>
              convert_file env opts script fs0 file = Some (Inl (ReadOrParseFailed m), fs0)
            \<and> processFile env opts script fs0 file
                = Some (\<lparr>input = Some file, outputPath = None, error = Some (Plain m),
                         success = False\<rparr>, fs0))
          \<and> (fs0 file = Some content \<and> yaml_load env content = Inr config
               \<and> executeScript_option opts config script (path_stem env file) = Some (Inl m) \<longrightarrow>
              convert_file env opts script fs0 file = Some (Inl (Plain m), fs0)
            \<and> processFile env opts script fs0 file
                = Some (\<lparr>input = Some file, outputPath = None, error = Some (Plain m),
                         success = False\<rparr>, fs0))
          \<and> (fs0 file = Some content \<and> yaml_load env content = Inr config
               \<and> executeScript_option opts config script (path_stem env file) = Some (Inr processed)
               \<and> yaml_dump env processed = Inl m \<longrightarrow>
              convert_file env opts script fs0 file = Some (Inl (WriteFailed m), fs0)
            \<and> processFile env opts script fs0 file
                = Some (\<lparr>input = Some file, outputPath = None, error = Some (Plain m),
                         success = False\<rparr>, fs0))
          \<and> (fs0 file = Some content \<and> yaml_load env content = Inr config
               \<and> executeScript_option opts config script (path_stem env file) = Some (Inr processed)
               \<and> yaml_dump env processed = Inr yamlStr
               \<and> write_error env (outputPath_of env opts file) = Some m \<longrightarrow>
              convert_file env opts script fs0 file = Some (Inl (WriteFailed m), fs0)
            \<and> processFile env opts script fs0 file
                = Some (\<lparr>input = Some file, outputPath = None, error = Some (Plain m),
                         success = False\<rparr>, fs0))
          \<and> (fs0 file = Some content \<and> yaml_load env content = Inr config
               \<and> executeScript_option opts config script (path_stem env file) = Some (Inr processed)
               \<and> yaml_dump env processed = Inr yamlStr
               \<and> write_error env (outputPath_of env opts file) = None \<longrightarrow>
              convert_file env opts script fs0 file
                = Some (Inr (outputPath_of env opts file),
                        fs0(outputPath_of env opts file \<mapsto> yamlStr))
            \<and> processFile env opts script fs0 file
                = Some (\<lparr>input = Some file, outputPath = Some (outputPath_of env opts file),
                         error = None, success = True\<rparr>,
                        fs0(outputPath_of env opts file \<mapsto> yamlStr)))"
    using file_outcomes by (intro allI)
qed

text \<open>
  The theorem at five matched files, the third of which is not YAML, in both
  variants, the second with groups of two: four successes and one recorded failure,
  four outputs written and none for the third file. Then the conversion of single
  files: one that is not YAML, one that is missing, one on which the routine fails,
  one whose output cannot be written, and one that is converted.
\<close>

theorem batch_isolates_failures_witness:
  "(\<forall>c s p. executeScript_option sample_options c s p \<noteq> None)
   \<and> prepare (sample_env [''1.yaml'', ''2.yaml'', ''3.yaml'', ''4.yaml'', ''5.yaml'']) sample_options
         sample_files
       = Inr (''function main(config) { return config; }'',
              [''1.yaml'', ''2.yaml'', ''3.yaml'', ''4.yaml'', ''5.yaml''])
   \<and> 0 < concurrency sample_options
   \<and> (\<exists>rs fss.
         batchProcess (sample_env [''1.yaml'', ''2.yaml'', ''3.yaml'', ''4.yaml'', ''5.yaml''])
           sample_options sample_files = Some (rs, fss ! 5)
         \<and> fss ! 0 = sample_files
         \<and> rs = [succeeded ''1.yaml'' ''out/1.yaml'', succeeded ''2.yaml'' ''out/2.yaml'',
                 failed ''3.yaml'' (ReadOrParseFailed ''bad indentation''),
                 succeeded ''4.yaml'' ''out/4.yaml'', succeeded ''5.yaml'' ''out/5.yaml'']
         \<and> length (filter success rs) = 4
         \<and> length (filter (\<lambda>r. \<not> success r) rs) = 1
         \<and> map (fss ! 5) [''out/1.yaml'', ''out/2.yaml'', ''out/3.yaml'', ''out/4.yaml'', ''out/5.yaml'']
             = [Some ''mode: rule'', Some ''mode: global'', None, Some ''mode: direct'',
                Some ''port: 7890''])
   \<and> (\<exists>rs fss.
         batchProcessParallel (sample_env [''1.yaml'', ''2.yaml'', ''3.yaml'', ''4.yaml'', ''5.yaml''])
           sample_options sample_files = Some (Inr rs, fss ! 5)
         \<and> fss ! 0 = sample_files
         \<and> rs = [succeeded ''1.yaml'' ''out/1.yaml'', succeeded ''2.yaml'' ''out/2.yaml'',
                 failed ''3.yaml'' (Plain ''bad indentation''),
                 succeeded ''4.yaml'' ''out/4.yaml'', succeeded ''5.yaml'' ''out/5.yaml'']
         \<and> length (filter success rs) = 4
         \<and> length (filter (\<lambda>r. \<not> success r) rs) = 1
         \<and> map (fss ! 5) [''out/1.yaml'', ''out/2.yaml'', ''out/3.yaml'', ''out/4.yaml'', ''out/5.yaml'']
             = [Some ''mode: rule'', Some ''mode: global'', None, Some ''mode: direct'',
                Some ''port: 7890''])
   \<and> convert_file (sample_env [''1.yaml'', ''2.yaml'', ''3.yaml'', ''4.yaml'', ''5.yaml''])
         sample_options ''function main(config) { return config; }'' sample_files ''3.yaml''
       = Some (Inl (ReadOrParseFailed ''bad indentation''), sample_files)
   \<and> convert_file (sample_env [''1.yaml'', ''2.yaml'', ''3.yaml'', ''4.yaml'', ''5.yaml''])
         sample_options ''function main(config) { return config; }'' sample_files ''6.yaml''
       = Some (Inl (ReadOrParseFailed ''ENOENT: no such file or directory, open 6.yaml''), sample_files)
   \<and> convert_file (sample_env [''1.yaml'', ''2.yaml'', ''3.yaml'', ''4.yaml'', ''5.yaml''])
         sample_options ''function main(config) { return config; }'' sample_files ''7.yaml''
       = Some (Inl (Plain ''port is not a valid port''), sample_files)
   \<and> convert_file (sample_env [''1.yaml'', ''2.yaml'', ''3.yaml'', ''4.yaml'', ''5.yaml''])
         sample_options ''function main(config) { return config; }'' sample_files ''8.yaml''
       = Some (Inl (WriteFailed ''EACCES: permission denied''), sample_files)
   \<and> convert_file (sample_env [''1.yaml'', ''2.yaml'', ''3.yaml'', ''4.yaml'', ''5.yaml''])
         sample_options ''function main(config) { return config; }'' sample_files ''1.yaml''
       = Some (Inr ''out/1.yaml'', sample_files(''out/1.yaml'' \<mapsto> ''mode: rule''))
   \<and> processFile (sample_env [''1.yaml'', ''2.yaml'', ''3.yaml'', ''4.yaml'', ''5.yaml''])
         sample_options ''function main(config) { return config; }'' sample_files ''7.yaml''
       = Some (failed ''7.yaml'' (Plain ''port is not a valid port''), sample_files)"
proof -
  let ?five = "[''1.yaml'', ''2.yaml'', ''3.yaml'', ''4.yaml'', ''5.yaml'']"
  let ?outs = "[''out/1.yaml'', ''out/2.yaml'', ''out/3.yaml'', ''out/4.yaml'', ''out/5.yaml'']"
  let ?src = "''function main(config) { return config; }''"
  have total: "\<forall>c s p. executeScript_option sample_options c s p \<noteq> None"
    by (simp add: sample_options_def)
  have prep: "prepare (sample_env ?five) sample_options sample_files = Inr (?src, ?five)"
    by code_simp
  have n: "0 < concurrency sample_options"
    by (simp add: sample_options_def)
  have u: "unique_from [] ?five = ?five"
    by simp
  note t = batch_isolates_failures[OF total prep]
  from t[THEN conjunct1] obtain rs fss
    where b: "batchProcess (sample_env ?five) sample_options sample_files
                = Some (rs, fss ! length (unique_from [] ?five))"
      and f0: "fss ! 0 = sample_files"
    by blast
  have l5: "length ?five = 5"
    by simp
  from b have b5: "batchProcess (sample_env ?five) sample_options sample_files = Some (rs, fss ! 5)"
    unfolding u l5 .
  have e: "map_option (\<lambda>(rs, fs'). (rs, map fs' ?outs))
        (batchProcess (sample_env ?five) sample_options sample_files)
      = Some ([succeeded ''1.yaml'' ''out/1.yaml'', succeeded ''2.yaml'' ''out/2.yaml'',
              failed ''3.yaml'' (ReadOrParseFailed ''bad indentation''),
              succeeded ''4.yaml'' ''out/4.yaml'', succeeded ''5.yaml'' ''out/5.yaml''],
             [Some ''mode: rule'', Some ''mode: global'', None, Some ''mode: direct'',
                Some ''port: 7890''])"
    by code_simp
  from e b5 have rs: "rs = [succeeded ''1.yaml'' ''out/1.yaml'', succeeded ''2.yaml'' ''out/2.yaml'',
              failed ''3.yaml'' (ReadOrParseFailed ''bad indentation''),
              succeeded ''4.yaml'' ''out/4.yaml'', succeeded ''5.yaml'' ''out/5.yaml'']"
    and fsq: "map (fss ! 5) ?outs = [Some ''mode: rule'', Some ''mode: global'', None,
                Some ''mode: direct'', Some ''port: 7890'']"
    by simp_all
  have cnt: "length (filter success rs) = 4 \<and> length (filter (\<lambda>r. \<not> success r) rs) = 1"
    unfolding rs by (simp add: succeeded_def failed_def)
  have s1: "\<exists>rs fss.
         batchProcess (sample_env ?five) sample_options sample_files = Some (rs, fss ! 5)
         \<and> fss ! 0 = sample_files
         \<and> rs = [succeeded ''1.yaml'' ''out/1.yaml'', succeeded ''2.yaml'' ''out/2.yaml'',
                 failed ''3.yaml'' (ReadOrParseFailed ''bad indentation''),
                 succeeded ''4.yaml'' ''out/4.yaml'', succeeded ''5.yaml'' ''out/5.yaml'']
         \<and> length (filter success rs) = 4
         \<and> length (filter (\<lambda>r. \<not> success r) rs) = 1
         \<and> map (fss ! 5) ?outs = [Some ''mode: rule'', Some ''mode: global'', None,
                Some ''mode: direct'', Some ''port: 7890'']"
    using b5 f0 rs cnt fsq by (intro exI[of _ rs] exI[of _ fss] conjI) simp_all
  from t[THEN conjunct2, THEN conjunct1, THEN mp, OF n] obtain ps pss
    where pb: "batchProcessParallel (sample_env ?five) sample_options sample_files
                = Some (Inr ps, pss ! length ?five)"
      and pf0: "pss ! 0 = sample_files"
    by blast
  from pb have pb5: "batchProcessParallel (sample_env ?five) sample_options sample_files
      = Some (Inr ps, pss ! 5)"
    unfolding l5 .
  have pe: "map_option (\<lambda>(r, fs'). (r, map fs' ?outs))
        (batchProcessParallel (sample_env ?five) sample_options sample_files)
      = Some (Inr [succeeded ''1.yaml'' ''out/1.yaml'', succeeded ''2.yaml'' ''out/2.yaml'',
              failed ''3.yaml'' (Plain ''bad indentation''),
              succeeded ''4.yaml'' ''out/4.yaml'', succeeded ''5.yaml'' ''out/5.yaml''],
             [Some ''mode: rule'', Some ''mode: global'', None, Some ''mode: direct'',
                Some ''port: 7890''])"
    by code_simp
  from pe pb5 have ps: "ps = [succeeded ''1.yaml'' ''out/1.yaml'', succeeded ''2.yaml'' ''out/2.yaml'',
              failed ''3.yaml'' (Plain ''bad indentation''),
              succeeded ''4.yaml'' ''out/4.yaml'', succeeded ''5.yaml'' ''out/5.yaml'']"
    and pfsq: "map (pss ! 5) ?outs = [Some ''mode: rule'', Some ''mode: global'', None,
                Some ''mode: direct'', Some ''port: 7890'']"
    by simp_all
  have pcnt: "length (filter success ps) = 4 \<and> length (filter (\<lambda>r. \<not> success r) ps) = 1"
    unfolding ps by (simp add: succeeded_def failed_def)
  have s2: "\<exists>rs fss.
         batchProcessParallel (sample_env ?five) sample_options sample_files = Some (Inr rs, fss ! 5)
         \<and> fss ! 0 = sample_files
         \<and> rs = [succeeded ''1.yaml'' ''out/1.yaml'', succeeded ''2.yaml'' ''out/2.yaml'',
                 failed ''3.yaml'' (Plain ''bad indentation''),
                 succeeded ''4.yaml'' ''out/4.yaml'', succeeded ''5.yaml'' ''out/5.yaml'']
         \<and> length (filter success rs) = 4
         \<and> length (filter (\<lambda>r. \<not> success r) rs) = 1
         \<and> map (fss ! 5) ?outs = [Some ''mode: rule'', Some ''mode: global'', None,
                Some ''mode: direct'', Some ''port: 7890'']"
    using pb5 pf0 ps pcnt pfsq by (intro exI[of _ ps] exI[of _ pss] conjI) simp_all
  have k3: "sample_files ''3.yaml'' = Some ''bad''
      \<and> yaml_load (sample_env ?five) ''bad'' = Inl ''bad indentation''"
    by (simp add: sample_files_def sample_env_def)
  have k6: "sample_files ''6.yaml'' = None"
    by (simp add: sample_files_def)
  note kinds = t[THEN conjunct2, THEN conjunct2]
  note c3 = kinds[THEN spec[of _ sample_files], THEN spec[of _ "''3.yaml''"],
      THEN spec[of _ "''bad''"], THEN spec, THEN spec, THEN spec,
      THEN spec[of _ "''bad indentation''"],
      THEN conjunct2, THEN conjunct1, THEN mp, OF k3, THEN conjunct1]
  from kinds[THEN spec[of _ sample_files], THEN spec[of _ "''6.yaml''"],
      THEN spec, THEN spec, THEN spec, THEN spec, THEN spec,
      THEN conjunct1, THEN mp, OF k6, THEN conjunct1]
  have "convert_file (sample_env ?five) sample_options ?src sample_files ''6.yaml''
       = Some (Inl (ReadOrParseFailed (no_such_file ''6.yaml'')), sample_files)" .
  then have c6: "convert_file (sample_env ?five) sample_options ?src sample_files ''6.yaml''
       = Some (Inl (ReadOrParseFailed ''ENOENT: no such file or directory, open 6.yaml''), sample_files)"
    by (simp add: no_such_file_def)
  have k7: "sample_files ''7.yaml'' = Some ''port: 70000''
      \<and> yaml_load (sample_env ?five) ''port: 70000'' = Inr ''port: 70000''
      \<and> executeScript_option sample_options ''port: 70000'' ?src
            (path_stem (sample_env ?five) ''7.yaml'') = Some (Inl ''port is not a valid port'')"
    by (simp add: sample_files_def sample_env_def sample_options_def)
  note o7 = kinds[THEN spec[of _ sample_files], THEN spec[of _ "''7.yaml''"],
      THEN spec[of _ "''port: 70000''"], THEN spec[of _ "''port: 70000''"], THEN spec, THEN spec,
      THEN spec[of _ "''port is not a valid port''"],
      THEN conjunct2, THEN conjunct2, THEN conjunct1, THEN mp, OF k7]
  note c7 = o7[THEN conjunct1]
  from o7[THEN conjunct2]
  have p7: "processFile (sample_env ?five) sample_options ?src sample_files ''7.yaml''
       = Some (failed ''7.yaml'' (Plain ''port is not a valid port''), sample_files)"
    by (simp add: failed_def)
  have k8: "sample_files ''8.yaml'' = Some ''mode: rule''
      \<and> yaml_load (sample_env ?five) ''mode: rule'' = Inr ''mode: rule''
      \<and> executeScript_option sample_options ''mode: rule'' ?src
            (path_stem (sample_env ?five) ''8.yaml'') = Some (Inr ''mode: rule'')
      \<and> yaml_dump (sample_env ?five) ''mode: rule'' = Inr ''mode: rule''
      \<and> write_error (sample_env ?five) (outputPath_of (sample_env ?five) sample_options ''8.yaml'')
            = Some ''EACCES: permission denied''"
    by (simp add: sample_files_def sample_env_def sample_options_def outputPath_of_def given_dir_def)
  note c8 = kinds[THEN spec[of _ sample_files], THEN spec[of _ "''8.yaml''"],
      THEN spec[of _ "''mode: rule''"], THEN spec[of _ "''mode: rule''"],
      THEN spec[of _ "''mode: rule''"], THEN spec[of _ "''mode: rule''"],
      THEN spec[of _ "''EACCES: permission denied''"],
      THEN conjunct2, THEN conjunct2, THEN conjunct2, THEN conjunct2, THEN conjunct1,
      THEN mp, OF k8, THEN conjunct1]
  have k1: "sample_files ''1.yaml'' = Some ''mode: rule''
      \<and> yaml_load (sample_env ?five) ''mode: rule'' = Inr ''mode: rule''
      \<and> executeScript_option sample_options ''mode: rule'' ?src
            (path_stem (sample_env ?five) ''1.yaml'') = Some (Inr ''mode: rule'')
      \<and> yaml_dump (sample_env ?five) ''mode: rule'' = Inr ''mode: rule''
      \<and> write_error (sample_env ?five) (outputPath_of (sample_env ?five) sample_options ''1.yaml'')
            = None"
    by (simp add: sample_files_def sample_env_def sample_options_def outputPath_of_def given_dir_def)
  have o1: "outputPath_of (sample_env ?five) sample_options ''1.yaml'' = ''out/1.yaml''"
    by (simp add: sample_env_def sample_options_def outputPath_of_def given_dir_def)
  note c1 = kinds[THEN spec[of _ sample_files], THEN spec[of _ "''1.yaml''"],
      THEN spec[of _ "''mode: rule''"], THEN spec[of _ "''mode: rule''"],
      THEN spec[of _ "''mode: rule''"], THEN spec[of _ "''mode: rule''"], THEN spec,
      THEN conjunct2, THEN conjunct2, THEN conjunct2, THEN conjunct2, THEN conjunct2,
      THEN mp, OF k1, THEN conjunct1, unfolded o1]
  from total prep n s1 s2 c3 c6 c7 c8 c1 p7 show ?thesis
    by (intro conjI)
qed

section \<open>Download and cache fallback\<close>

lemma download_when_request_fails:
  assumes "axios_get env url = Inl cause"
  shows "downloadSubscription env fs url False = (Inl (NoUsableCache url), fs, [])
     \<and> (fs (cachePath env url) = None \<longrightarrow>
           downloadSubscription env fs url True
             = (Inl (NoUsableCache url), fs, [ExistsSync (cachePath env url)]))
     \<and> (\<forall>cached. fs (cachePath env url) = Some cached \<longrightarrow>
           fst (downloadSubscription env fs url True)
             = (if starts_with (trim cached) ''{''
                then (case json_parse env cached of
                        None \<Rightarrow> Inl (CacheInvalid url)
                      | Some j \<Rightarrow>
                          Inr (Structured j,
                               case fs (headersCachePath env url) of
                                 None \<Rightarrow> JObj []
                               | Some t \<Rightarrow> (case json_parse env t of None \<Rightarrow> JObj [] | Some h \<Rightarrow> h)))
                else Inr (Text cached,
                          case fs (headersCachePath env url) of
                            None \<Rightarrow> JObj []
                          | Some t \<Rightarrow> (case json_parse env t of None \<Rightarrow> JObj [] | Some h \<Rightarrow> h)))
           \<and> fst (snd (downloadSubscription env fs url True)) = fs)"
  using assms
  by (simp add: downloadSubscription_def fall_back_def cached_content_def cached_headers_def
      split: option.splits)

lemma download_when_writes_succeed:
  assumes "axios_get env url = Inr resp"
    and "cache_write_error env (cachePath env url) = None"
    and "cache_write_error env (headersCachePath env url) = None"
  shows "downloadSubscription env fs url useCache
     = (Inr (data resp, headers resp),
        fs(cachePath env url \<mapsto> body_text env (data resp),
           headersCachePath env url \<mapsto> json_stringify env (headers resp)),
        [WriteFileSync (cachePath env url), WriteFileSync (headersCachePath env url)])"
  using assms by (simp add: downloadSubscription_def cache_write_def)

lemma download_when_write_fails:
  assumes "axios_get env url = Inr resp" and "cache_write_error env (cachePath env url) = Some m"
  shows "downloadSubscription env fs url useCache
     = fall_back env fs url useCache [WriteFileSync (cachePath env url)]"
  using assms by (simp add: downloadSubscription_def cache_write_def)

text \<open>
  Claim C2 fails on the code. The two writes of the cache are inside the \<open>try\<close> block
  whose \<open>catch\<close> is the fallback, so a request that succeeds is treated as one that
  failed when the first write throws: the response \<open>mode: global\<close> is dropped. With
  the cache allowed, the older cached body \<open>mode: rule\<close> and the cached headers are
  returned though the request did not fail; with the cache not allowed, the call
  fails with the error of a download that failed. The third run is the fallback on a
  cached body that starts with a no-break space before \<open>{\<close>: \<open>trim\<close> removes it, the
  body looks like JSON and is not, and the call fails with the error of an invalid
  cache.
\<close>

theorem stale_cache_after_successful_request:
  "axios_get readonly_cache_env ''https://example.org/sub''
     = Inr \<lparr>data = Text ''mode: global'', headers = JObj []\<rparr>
   \<and> (case downloadSubscription readonly_cache_env
             [''cache/k.cache'' \<mapsto> ''mode: rule'',
              ''cache/k.headers.json''
                \<mapsto> [CHR ''{'', CHR 0x22, CHR ''a'', CHR 0x22, CHR '':'', CHR ''1'', CHR ''}'']]
             ''https://example.org/sub'' True of
         (r, fs', calls) \<Rightarrow> (r, calls))
       = (Inr (Text ''mode: rule'', JObj [(''a'', JNum 1)]),
          [WriteFileSync ''cache/k.cache'', ExistsSync ''cache/k.cache'', ReadFileSync ''cache/k.cache'',
           ExistsSync ''cache/k.headers.json'', ReadFileSync ''cache/k.headers.json''])
   \<and> (case downloadSubscription readonly_cache_env
             [''cache/k.cache'' \<mapsto> ''mode: rule''] ''https://example.org/sub'' False of
         (r, fs', calls) \<Rightarrow> (r, calls))
       = (Inl (NoUsableCache ''https://example.org/sub''), [WriteFileSync ''cache/k.cache''])
   \<and> (case downloadSubscription readonly_cache_env
             [''cache/k.cache'' \<mapsto> [CHR 0xC2, CHR 0xA0, CHR ''{'', CHR ''}'']]
             ''https://example.org/sub'' True of
         (r, fs', calls) \<Rightarrow> (r, calls))
       = (Inl (CacheInvalid ''https://example.org/sub''),
          [WriteFileSync ''cache/k.cache'', ExistsSync ''cache/k.cache'', ReadFileSync ''cache/k.cache'',
           ExistsSync ''cache/k.headers.json''])"
  by code_simp

end
